theory Spec2Isabelle
  imports Main "HOL-Library.Word" "HOL-Library.Multiset"
begin

unbundle bit_operations_syntax

section \<open>The DOM parser of prosemirror-model (\<^verbatim>\<open>src/from_dom.ts\<close>)\<close>

text \<open>
  The development embeds \<^verbatim>\<open>from_dom.ts\<close>: the rule store (\<^verbatim>\<open>DOMParser\<close>), the frames of
  the node-construction stack (\<^verbatim>\<open>NodeContext\<close>) and the tree walker (\<^verbatim>\<open>ParseContext\<close>).
  Mutable objects become records that are passed and returned. Strings are lists of
  characters with codes below 256. The schema, the content-match automaton, the
  document values and the browser's DOM engine are imported by the source from files that
  are not part of it; their operations are the fields of the record \<open>api\<close> below, so every
  statement holds for whatever these collaborators compute.
\<close>

subsection \<open>Values: attributes, marks, node types, nodes\<close>

type_synonym attrs = "(string \<times> string) list"

text \<open>
  A \<^verbatim>\<open>Mark\<close> is an object: \<open>mk_id\<close> stands for its identity (\<^verbatim>\<open>Array.lastIndexOf\<close>
  compares by reference), \<open>mk_type\<close> is the name of its mark type, and \<open>mk_excluded\<close>
  holds the names of the mark types that its type excludes, as the schema declares them.
\<close>

record Mark =
  mk_id :: nat
  mk_type :: string
  mk_attrs :: attrs
  mk_excluded :: "string list"

record NodeType =
  nt_name :: string
  nt_groups :: "string list"
  inlineContent :: bool
  isLeaf :: bool
  isInline :: bool
  isTextblock :: bool
  defaultAttrs :: "attrs option"
  whitespace :: string
  contentMatch :: nat

text \<open>
  A document node: its type, attributes, children, marks and, for a text node, its text.
\<close>

datatype node =
  Node (n_type: NodeType) (n_attrs: "attrs option") (n_content: "node list")
       (n_marks: "Mark list") (n_text: "string option")

definition isText :: "node \<Rightarrow> bool" where
  "isText n = (n_text n \<noteq> None)"

definition withText :: "node \<Rightarrow> string \<Rightarrow> node" where
  "withText n t = Node (n_type n) (n_attrs n) (n_content n) (n_marks n) (Some t)"

definition node_mark :: "node \<Rightarrow> Mark list \<Rightarrow> node" where
  "node_mark n ms = Node (n_type n) (n_attrs n) (n_content n) ms (n_text n)"

definition type_create :: "NodeType \<Rightarrow> attrs option \<Rightarrow> node list \<Rightarrow> Mark list \<Rightarrow> node" where
  "type_create t a c ms = Node t a c ms None"

text \<open>
  \<open>ResolvedPos\<close> (the option \<^verbatim>\<open>context\<close>): \<open>rp_nodes ! d\<close> is \<^verbatim>\<open>$pos.node(d)\<close> for
  \<open>d \<le> rp_depth\<close>, \<open>rp_indexAfter ! d\<close> is \<^verbatim>\<open>$pos.indexAfter(d)\<close>.
\<close>

record ResolvedPos =
  rp_depth :: nat
  rp_nodes :: "node list"
  rp_indexAfter :: "nat list"

subsection \<open>The input tree\<close>

text \<open>
  DOM nodes are objects held in a store and named by their address: \<^verbatim>\<open>normalizeList\<close>
  moves children, and the position finder compares nodes by reference.
\<close>

record DOMNode =
  nodeType :: nat
  nodeName :: string
  nodeValue :: string
  styleAttr :: "string option"
  namespaceURI :: "string option"
  childNodes :: "nat list"
  parentNode :: "nat option"

type_synonym dom = "nat \<Rightarrow> DOMNode option"

subsection \<open>Collaborators taken as parameters\<close>

text \<open>
  \<^item> \<open>allowsMarkType t m\<close>: \<^verbatim>\<open>NodeType.allowsMarkType\<close>;
  \<^item> \<open>matchType\<close>, \<open>cm_findWrapping\<close>, \<open>fillBefore\<close>, \<open>matchFragment\<close>, \<open>edges\<close>,
    \<open>defaultType\<close>: the methods of \<^verbatim>\<open>ContentMatch\<close>, automaton states being numbers;
    \<open>matchFragment\<close> and \<open>fillToEnd\<close> (\<^verbatim>\<open>fillBefore(Fragment.empty, true)\<close>) are
    the two calls whose result the source asserts to be non-null (\<^verbatim>\<open>!\<close>);
  \<^item> \<open>cm_bound\<close>: a bound on the number of automaton states;
  \<^item> \<open>contentMatchAt\<close>: \<^verbatim>\<open>Node.contentMatchAt\<close>; \<open>nodeSize\<close>: \<^verbatim>\<open>Node.nodeSize\<close>;
  \<^item> \<open>schema_nodes\<close>: \<^verbatim>\<open>schema.nodes\<close> in iteration order; \<open>textType\<close>: the type of
    \<^verbatim>\<open>schema.text(..)\<close>; \<open>topNodeType\<close>: \<^verbatim>\<open>schema.topNodeType\<close>;
  \<^item> \<open>mark_create t a k\<close>: \<^verbatim>\<open>schema.marks[t].create(a)\<close>, \<open>k\<close> a fresh identity it may use,
    \<open>None\<close> when the schema has no mark type \<open>t\<close>;
  \<^item> \<open>css_matches\<close>, \<open>querySelector\<close>: the browser's selector engine;
    \<open>dom_contains D a b\<close>: \<^verbatim>\<open>a.contains(b)\<close>; \<open>compareDocumentPosition D a b\<close>:
    \<^verbatim>\<open>a.compareDocumentPosition(b)\<close>.
\<close>

record api =
  allowsMarkType :: "NodeType \<Rightarrow> string \<Rightarrow> bool"
  matchType :: "nat \<Rightarrow> NodeType \<Rightarrow> nat option"
  cm_findWrapping :: "nat \<Rightarrow> NodeType \<Rightarrow> NodeType list option"
  fillBefore :: "nat \<Rightarrow> node list \<Rightarrow> node list option"
  matchFragment :: "nat \<Rightarrow> node list \<Rightarrow> nat"
  fillToEnd :: "nat \<Rightarrow> node list"
  edges :: "nat \<Rightarrow> (NodeType \<times> nat) list"
  cm_bound :: nat
  defaultType :: "nat \<Rightarrow> NodeType option"
  contentMatchAt :: "node \<Rightarrow> nat \<Rightarrow> nat"
  nodeSize :: "node \<Rightarrow> nat"
  schema_nodes :: "(string \<times> NodeType) list"
  textType :: NodeType
  topNodeType :: NodeType
  mark_create :: "string \<Rightarrow> attrs option \<Rightarrow> nat \<Rightarrow> Mark option"
  css_matches :: "dom \<Rightarrow> nat \<Rightarrow> string \<Rightarrow> bool"
  querySelector :: "dom \<Rightarrow> nat \<Rightarrow> string \<Rightarrow> nat option"
  dom_contains :: "dom \<Rightarrow> nat \<Rightarrow> nat \<Rightarrow> bool"
  compareDocumentPosition :: "dom \<Rightarrow> nat \<Rightarrow> nat \<Rightarrow> 32 word"

definition schema_text :: "api \<Rightarrow> string \<Rightarrow> node" where
  "schema_text A v = Node (textType A) None [] [] (Some v)"

subsection \<open>Mark collections\<close>

text \<open>
  Modelled from the spec: \<^verbatim>\<open>mark.ts\<close> (\<^verbatim>\<open>Mark.eq\<close>, \<^verbatim>\<open>isInSet\<close>, \<^verbatim>\<open>addToSet\<close>,
  \<^verbatim>\<open>removeFromSet\<close>) is not among the sources. The spec (sections 2 and 6) describes
  "pure operations over ordered, deduplicated mark collections: add, remove, membership,
  equality", and (section 4.3) an outer mark that is "temporarily shadowed" by another
  mark of the same type. Two marks are equal when type and attributes agree. Adding a
  mark returns the collection as it is when it holds an equal mark; otherwise the members
  whose type the new mark excludes are dropped, the collection is returned as it is when
  a member that stays excludes the type of the new mark, and else the new mark is added
  at the end. With marks that exclude nothing this is the plain deduplicated collection.
\<close>

definition mark_eq :: "Mark \<Rightarrow> Mark \<Rightarrow> bool" where
  "mark_eq a b = (mk_type a = mk_type b \<and> mk_attrs a = mk_attrs b)"

definition isInSet :: "Mark \<Rightarrow> Mark list \<Rightarrow> bool" where
  "isInSet m ms = list_ex (mark_eq m) ms"

text \<open>
  The members that stay when \<open>m\<close> is added; \<open>None\<close> when the collection is returned as it
  is.
\<close>

fun addToSet_scan :: "Mark \<Rightarrow> Mark list \<Rightarrow> Mark list option" where
  "addToSet_scan m [] = Some []"
| "addToSet_scan m (x # xs) =
     (if mark_eq m x then None
      else if mk_type x \<in> set (mk_excluded m) then addToSet_scan m xs
      else if mk_type m \<in> set (mk_excluded x) then None
      else map_option (Cons x) (addToSet_scan m xs))"

definition addToSet :: "Mark \<Rightarrow> Mark list \<Rightarrow> Mark list" where
  "addToSet m ms = (case addToSet_scan m ms of None \<Rightarrow> ms | Some kept \<Rightarrow> kept @ [m])"

fun removeFromSet :: "Mark \<Rightarrow> Mark list \<Rightarrow> Mark list" where
  "removeFromSet m [] = []"
| "removeFromSet m (x # xs) = (if mark_eq m x then xs else x # removeFromSet m xs)"

text \<open>\<^verbatim>\<open>findSameMarkInSet\<close>: the first mark of the set equal to \<open>m\<close>.\<close>

fun findSameMarkInSet :: "Mark \<Rightarrow> Mark list \<Rightarrow> Mark option" where
  "findSameMarkInSet m [] = None"
| "findSameMarkInSet m (x # xs) = (if mark_eq m x then Some x else findSameMarkInSet m xs)"

subsection \<open>Whitespace options\<close>

definition OPT_PRESERVE_WS :: "32 word" where "OPT_PRESERVE_WS = 1"
definition OPT_PRESERVE_WS_FULL :: "32 word" where "OPT_PRESERVE_WS_FULL = 2"
definition OPT_OPEN_LEFT :: "32 word" where "OPT_OPEN_LEFT = 4"

text \<open>The values of \<^verbatim>\<open>preserveWhitespace\<close>: \<^verbatim>\<open>false\<close>, \<^verbatim>\<open>true\<close>, \<^verbatim>\<open>"full"\<close>.\<close>

datatype pws = PWFalse | PWTrue | PWFull

definition wsOptionsFor :: "NodeType option \<Rightarrow> pws option \<Rightarrow> 32 word \<Rightarrow> 32 word" where
  "wsOptionsFor t preserveWhitespace base =
     (case preserveWhitespace of
        Some p \<Rightarrow> (if p \<noteq> PWFalse then OPT_PRESERVE_WS else 0) OR
                  (if p = PWFull then OPT_PRESERVE_WS_FULL else 0)
      | None \<Rightarrow>
          (case t of
             Some ty \<Rightarrow> if whitespace ty = ''pre''
                        then OPT_PRESERVE_WS OR OPT_PRESERVE_WS_FULL
                        else base AND NOT OPT_OPEN_LEFT
           | None \<Rightarrow> base AND NOT OPT_OPEN_LEFT))"


subsection \<open>Strings\<close>

text \<open>
  The character class \<^verbatim>\<open>[ \t\r\n\u000c]\<close> of the source's regular expressions, and the
  replacements built on it.
\<close>

definition is_ws :: "char \<Rightarrow> bool" where
  "is_ws c = (c = CHR '' '' \<or> c = CHR 0x09 \<or> c = CHR 0x0D \<or> c = CHR 0x0A \<or> c = CHR 0x0C)"

text \<open>\<^verbatim>\<open>/[^ \t\r\n\u000c]/.test(value)\<close>\<close>

definition has_non_ws :: "string \<Rightarrow> bool" where
  "has_non_ws v = list_ex (\<lambda>c. \<not> is_ws c) v"

text \<open>\<^verbatim>\<open>value.replace(/[ \t\r\n\u000c]+/g, " ")\<close>: every maximal run becomes one space.\<close>

fun collapse_from :: "bool \<Rightarrow> string \<Rightarrow> string" where
  "collapse_from inRun [] = []"
| "collapse_from inRun (c # cs) =
     (if is_ws c then (if inRun then collapse_from True cs else CHR '' '' # collapse_from True cs)
      else c # collapse_from False cs)"

definition collapse_ws :: "string \<Rightarrow> string" where
  "collapse_ws v = collapse_from False v"

text \<open>\<^verbatim>\<open>value.replace(/\r?\n|\r/g, " ")\<close>\<close>

fun newlines_to_spaces :: "string \<Rightarrow> string" where
  "newlines_to_spaces [] = []"
| "newlines_to_spaces [c] = (if c = CHR 0x0D \<or> c = CHR 0x0A then [CHR '' ''] else [c])"
| "newlines_to_spaces (c # d # cs) =
     (if c = CHR 0x0D \<and> d = CHR 0x0A then CHR '' '' # newlines_to_spaces cs
      else if c = CHR 0x0D \<or> c = CHR 0x0A then CHR '' '' # newlines_to_spaces (d # cs)
      else c # newlines_to_spaces (d # cs))"

text \<open>\<^verbatim>\<open>value.replace(/\r\n?/g, "\n")\<close>\<close>

fun normalize_newlines :: "string \<Rightarrow> string" where
  "normalize_newlines [] = []"
| "normalize_newlines [c] = (if c = CHR 0x0D then [CHR 0x0A] else [c])"
| "normalize_newlines (c # d # cs) =
     (if c = CHR 0x0D \<and> d = CHR 0x0A then CHR 0x0A # normalize_newlines cs
      else if c = CHR 0x0D then CHR 0x0A # normalize_newlines (d # cs)
      else c # normalize_newlines (d # cs))"

text \<open>The length of the match of \<^verbatim>\<open>/[ \t\r\n\u000c]+$/\<close>, 0 when there is none.\<close>

definition trailing_ws :: "string \<Rightarrow> nat" where
  "trailing_ws v = length (takeWhile is_ws (rev v))"

text \<open>\<^verbatim>\<open>String.toLowerCase\<close> on characters below 256.\<close>

definition lower_char :: "char \<Rightarrow> char" where
  "lower_char c =
     (let n = (of_char c :: nat)
      in if (65 \<le> n \<and> n \<le> 90) \<or> (192 \<le> n \<and> n \<le> 222 \<and> n \<noteq> 215)
         then char_of (n + 32) else c)"

definition toLowerCase :: "string \<Rightarrow> string" where
  "toLowerCase v = map lower_char v"

text \<open>A string or absent property used as a condition: absent and empty are falsy.\<close>

definition truthy :: "string option \<Rightarrow> bool" where
  "truthy v = (case v of None \<Rightarrow> False | Some x \<Rightarrow> x \<noteq> [])"

definition blockTags :: "string list" where
  "blockTags = [''address'', ''article'', ''aside'', ''blockquote'', ''canvas'',
     ''dd'', ''div'', ''dl'', ''fieldset'', ''figcaption'', ''figure'',
     ''footer'', ''form'', ''h1'', ''h2'', ''h3'', ''h4'', ''h5'',
     ''h6'', ''header'', ''hgroup'', ''hr'', ''li'', ''noscript'', ''ol'',
     ''output'', ''p'', ''pre'', ''section'', ''table'', ''tfoot'', ''ul'']"

definition ignoreTags :: "string list" where
  "ignoreTags = [''head'', ''noscript'', ''object'', ''script'', ''style'', ''title'']"

definition listTags :: "string list" where
  "listTags = [''ol'', ''ul'']"

subsection \<open>\<^verbatim>\<open>markMayApply\<close>\<close>

text \<open>
  The search over the automaton: \<open>seen\<close> is the list of visited states, shared by the
  recursive calls as in the source. Each call visits a state not seen before, so the
  recursion is at most as deep as there are states; it is bounded by the first argument.
\<close>

fun scan :: "api \<Rightarrow> NodeType \<Rightarrow> nat \<Rightarrow> nat list \<Rightarrow> nat \<Rightarrow> bool \<times> nat list"
and scan_edges :: "api \<Rightarrow> NodeType \<Rightarrow> nat \<Rightarrow> nat list \<Rightarrow> (NodeType \<times> nat) list \<Rightarrow> bool \<times> nat list"
where
  "scan A target 0 seen m = (False, seen)"
| "scan A target (Suc k) seen m = scan_edges A target k (seen @ [m]) (edges A m)"
| "scan_edges A target k seen [] = (False, seen)"
| "scan_edges A target k seen ((t, next) # es) =
     (if t = target then (True, seen)
      else if next \<notin> set seen
      then (case scan A target k seen next of
              (True, seen') \<Rightarrow> (True, seen')
            | (False, seen') \<Rightarrow> scan_edges A target k seen' es)
      else scan_edges A target k seen es)"

definition markMayApply :: "api \<Rightarrow> string \<Rightarrow> NodeType \<Rightarrow> bool" where
  "markMayApply A markType target =
     list_ex (\<lambda>(name, parent).
        allowsMarkType A parent markType \<and>
        fst (scan A target (cm_bound A) [] (contentMatch parent)))
       (schema_nodes A)"

subsection \<open>\<^verbatim>\<open>NodeContext\<close>: one frame of the stack\<close>

text \<open>
  \<open>fid\<close> is the identity of the frame object (\<^verbatim>\<open>sync\<close> and \<^verbatim>\<open>removePendingMark\<close>
  compare frames by reference); \<open>ctype\<close>, \<open>cattrs\<close>, \<open>cmatch\<close> are the fields \<^verbatim>\<open>type\<close>,
  \<^verbatim>\<open>attrs\<close>, \<^verbatim>\<open>match\<close>.
\<close>

record NodeContext =
  fid :: nat
  ctype :: "NodeType option"
  cattrs :: "attrs option"
  marks :: "Mark list"
  pendingMarks :: "Mark list"
  solid :: bool
  cmatch :: "nat option"
  options :: "32 word"
  content :: "node list"
  activeMarks :: "Mark list"
  stashMarks :: "Mark list"

text \<open>
  The constructor. Every call of the source that passes no match and no open-left option
  passes a type, so \<^verbatim>\<open>type!.contentMatch\<close> is defined there.
\<close>

definition new_NodeContext ::
  "nat \<Rightarrow> NodeType option \<Rightarrow> attrs option \<Rightarrow> Mark list \<Rightarrow> Mark list \<Rightarrow> bool \<Rightarrow>
   nat option \<Rightarrow> 32 word \<Rightarrow> NodeContext" where
  "new_NodeContext i t a ms pending sol m opts =
     \<lparr>fid = i, ctype = t, cattrs = a, marks = ms, pendingMarks = pending, solid = sol,
      cmatch = (case m of Some x \<Rightarrow> Some x
                | None \<Rightarrow> if opts AND OPT_OPEN_LEFT \<noteq> 0 then None
                          else map_option contentMatch t),
      options = opts, content = [], activeMarks = [], stashMarks = []\<rparr>"

text \<open>\<^verbatim>\<open>NodeContext.findWrapping\<close>: the route, and the frame with its \<^verbatim>\<open>match\<close> updated.\<close>

definition findWrapping ::
  "api \<Rightarrow> NodeContext \<Rightarrow> node \<Rightarrow> NodeType list option \<times> NodeContext" where
  "findWrapping A cx n =
     (case cmatch cx of
        Some m \<Rightarrow> (cm_findWrapping A m (n_type n), cx)
      | None \<Rightarrow>
          (case ctype cx of
             None \<Rightarrow> (Some [], cx)
           | Some t \<Rightarrow>
               (case fillBefore A (contentMatch t) [n] of
                  Some fill \<Rightarrow>
                    (let m = matchFragment A (contentMatch t) fill
                     in (cm_findWrapping A m (n_type n), cx\<lparr>cmatch := Some m\<rparr>))
                | None \<Rightarrow>
                    (case cm_findWrapping A (contentMatch t) (n_type n) of
                       Some wrap \<Rightarrow> (Some wrap, cx\<lparr>cmatch := Some (contentMatch t)\<rparr>)
                     | None \<Rightarrow> (None, cx)))))"

text \<open>
  \<^verbatim>\<open>NodeContext.finish\<close>. \<open>strip_trailing\<close> is the first statement (trailing whitespace
  of a last text child), \<open>finish_content\<close> adds the automaton's fill.
\<close>

definition strip_trailing :: "node list \<Rightarrow> node list" where
  "strip_trailing c =
     (if c = [] then c
      else let l = last c
           in case n_text l of
                None \<Rightarrow> c
              | Some t \<Rightarrow>
                  (let m = trailing_ws t
                   in if m = 0 then c
                      else if length t = m then butlast c
                      else butlast c @ [withText l (take (length t - m) t)]))"

definition finish_content :: "api \<Rightarrow> NodeContext \<Rightarrow> bool \<Rightarrow> node list" where
  "finish_content A cx openEnd =
     (let c = (if options cx AND OPT_PRESERVE_WS = 0 then strip_trailing (content cx)
               else content cx)
      in case cmatch cx of
           Some m \<Rightarrow> if \<not> openEnd then c @ fillToEnd A m else c
         | None \<Rightarrow> c)"

datatype finished = FNode node | FFragment "node list"

definition finish :: "api \<Rightarrow> NodeContext \<Rightarrow> bool \<Rightarrow> finished" where
  "finish A cx openEnd =
     (case ctype cx of
        Some t \<Rightarrow> FNode (type_create t (cattrs cx) (finish_content A cx openEnd) (marks cx))
      | None \<Rightarrow> FFragment (finish_content A cx openEnd))"

text \<open>\<^verbatim>\<open>popFromStashMark\<close>: the last stashed mark equal to \<open>m\<close> is taken out and returned.\<close>

fun remove_first :: "('a \<Rightarrow> bool) \<Rightarrow> 'a list \<Rightarrow> 'a list" where
  "remove_first P [] = []"
| "remove_first P (x # xs) = (if P x then xs else x # remove_first P xs)"

definition popFromStashMark :: "Mark \<Rightarrow> NodeContext \<Rightarrow> Mark option \<times> NodeContext" where
  "popFromStashMark m cx =
     (case List.find (mark_eq m) (rev (stashMarks cx)) of
        None \<Rightarrow> (None, cx)
      | Some x \<Rightarrow> (Some x, cx\<lparr>stashMarks := rev (remove_first (mark_eq m) (rev (stashMarks cx)))\<rparr>))"

text \<open>
  \<^verbatim>\<open>applyPending\<close>: the loop runs over the pending list as it was at entry; each mark that
  may apply and is not active yet moves from pending to active.
\<close>

definition mark_applies :: "api \<Rightarrow> NodeContext \<Rightarrow> NodeType \<Rightarrow> Mark \<Rightarrow> bool" where
  "mark_applies A cx nextType m =
     (case ctype cx of
        Some t \<Rightarrow> allowsMarkType A t (mk_type m)
      | None \<Rightarrow> markMayApply A (mk_type m) nextType)"

definition applyPending_step :: "api \<Rightarrow> NodeType \<Rightarrow> Mark \<Rightarrow> NodeContext \<Rightarrow> NodeContext" where
  "applyPending_step A nextType m cx =
     (if mark_applies A cx nextType m \<and> \<not> isInSet m (activeMarks cx)
      then cx\<lparr>activeMarks := addToSet m (activeMarks cx),
              pendingMarks := removeFromSet m (pendingMarks cx)\<rparr>
      else cx)"

definition applyPending :: "api \<Rightarrow> NodeContext \<Rightarrow> NodeType \<Rightarrow> NodeContext" where
  "applyPending A cx nextType = fold (applyPending_step A nextType) (pendingMarks cx) cx"

text \<open>\<^verbatim>\<open>inlineContext\<close>\<close>

definition inlineContext :: "dom \<Rightarrow> NodeContext \<Rightarrow> DOMNode \<Rightarrow> bool" where
  "inlineContext D cx dn =
     (case ctype cx of
        Some t \<Rightarrow> inlineContent t
      | None \<Rightarrow>
          if content cx \<noteq> [] then isInline (n_type (hd (content cx)))
          else (case parentNode dn of
                  None \<Rightarrow> False
                | Some p \<Rightarrow>
                    (case D p of
                       None \<Rightarrow> False
                     | Some pn \<Rightarrow> toLowerCase (nodeName pn) \<notin> set blockTags)))"

subsection \<open>Parse rules and options\<close>

text \<open>
  The result of \<^verbatim>\<open>getAttrs\<close>: \<^verbatim>\<open>false\<close>, \<^verbatim>\<open>null\<close> or \<^verbatim>\<open>undefined\<close>, or an attribute
  object; its argument: the element for a tag rule, the style's value for a style rule.
\<close>

datatype attrs_result = Reject | NoAttrs | GotAttrs attrs

datatype getattrs_arg = ArgElement nat | ArgString string

text \<open>\<^verbatim>\<open>skip\<close> is a boolean or (read through \<^verbatim>\<open>as any\<close>) a DOM node to descend into.\<close>

datatype skipval = SkipFalse | SkipTrue | SkipNode nat

datatype contentEl = CESelector string | CEElement nat | CEFunction "dom \<Rightarrow> nat \<Rightarrow> nat"

text \<open>
  A \<^verbatim>\<open>ParseRule\<close>; the field \<^verbatim>\<open>x\<close> of the source is \<open>r_x\<close>. \<open>r_namespace\<close> is \<open>None\<close>
  for \<^verbatim>\<open>undefined\<close> and \<open>Some None\<close> for \<^verbatim>\<open>null\<close>.
\<close>

record ParseRule =
  r_tag :: "string option"
  r_namespace :: "string option option"
  r_style :: "string option"
  r_priority :: "int option"
  r_consuming :: "bool option"
  r_context :: "string option"
  r_node :: "string option"
  r_mark :: "string option"
  r_clearMark :: "(Mark \<Rightarrow> bool) option"
  r_ignore :: bool
  r_closeParent :: bool
  r_skip :: skipval
  r_attrs :: "attrs option"
  r_getAttrs :: "(dom \<Rightarrow> getattrs_arg \<Rightarrow> attrs_result) option"
  r_contentElement :: "contentEl option"
  r_getContent :: "(dom \<Rightarrow> nat \<Rightarrow> node list) option"
  r_preserveWhitespace :: "pws option"

text \<open>An entry of \<^verbatim>\<open>findPositions\<close>: \<^verbatim>\<open>{node, offset, pos?}\<close>.\<close>

record FindPos =
  fp_node :: nat
  fp_offset :: int
  fp_pos :: "int option"

record ParseOptions =
  o_preserveWhitespace :: "pws option"
  o_findPositions :: "FindPos list option"
  o_from :: "nat option"
  o_to :: "nat option"
  o_topNode :: "node option"
  o_topMatch :: "nat option"
  o_context :: "ResolvedPos option"
  o_ruleFromNode :: "(dom \<Rightarrow> nat \<Rightarrow> ParseRule option) option"
  o_topOpen :: bool

subsection \<open>\<^verbatim>\<open>DOMParser.schemaRules\<close>\<close>

definition rule_priority :: "ParseRule \<Rightarrow> int" where
  "rule_priority r = (case r_priority r of None \<Rightarrow> 50 | Some p \<Rightarrow> p)"

text \<open>
  \<^verbatim>\<open>insert\<close>: the rule goes before the first rule of the result whose priority is
  strictly lower, at the end when there is none.
\<close>

fun insert_rule :: "ParseRule \<Rightarrow> ParseRule list \<Rightarrow> ParseRule list" where
  "insert_rule r [] = [r]"
| "insert_rule r (n # rest) =
     (if rule_priority n < rule_priority r then r # n # rest else n # insert_rule r rest)"

text \<open>
  The copy of a declared rule gets the declaring type as its production unless it names
  one. The source assigns the field after the insertion, on the object already in the
  list; the priority is not touched, so the model inserts the completed copy.
\<close>

definition mark_rule :: "string \<Rightarrow> ParseRule \<Rightarrow> ParseRule" where
  "mark_rule name r =
     (if \<not> (truthy (r_mark r) \<or> r_ignore r \<or> r_clearMark r \<noteq> None)
      then r\<lparr>r_mark := Some name\<rparr> else r)"

definition node_rule :: "string \<Rightarrow> ParseRule \<Rightarrow> ParseRule" where
  "node_rule name r =
     (if \<not> (truthy (r_node r) \<or> r_ignore r \<or> truthy (r_mark r))
      then r\<lparr>r_node := Some name\<rparr> else r)"

text \<open>
  A schema's declarations: for every mark type and every node type, in the order of
  \<^verbatim>\<open>for (let name in ..)\<close>, its name and its \<^verbatim>\<open>spec.parseDOM\<close> (absent or a rule list).
\<close>

type_synonym declared = "(string \<times> ParseRule list option) list"

definition insert_declared ::
  "(string \<Rightarrow> ParseRule \<Rightarrow> ParseRule) \<Rightarrow> string \<times> ParseRule list option \<Rightarrow>
   ParseRule list \<Rightarrow> ParseRule list" where
  "insert_declared complete d result =
     (case snd d of
        None \<Rightarrow> result
      | Some rules \<Rightarrow> fold (\<lambda>rule res. insert_rule (complete (fst d) rule) res) rules result)"

definition schemaRules :: "declared \<Rightarrow> declared \<Rightarrow> ParseRule list" where
  "schemaRules schema_marks schema_nodes_decl =
     fold (insert_declared node_rule) schema_nodes_decl
       (fold (insert_declared mark_rule) schema_marks [])"

subsection \<open>\<^verbatim>\<open>ParseContext\<close>: the state of one parse\<close>

text \<open>
  \<open>popen\<close> and \<open>pfind\<close> are the fields \<^verbatim>\<open>open\<close> and \<^verbatim>\<open>find\<close>. \<open>tags\<close>, \<open>styles\<close> and
  \<open>normalizeLists\<close> are the parser's (a match may assign to a rule's \<^verbatim>\<open>attrs\<close>, so the
  rules are part of the state); \<open>poptions\<close> and \<open>isOpen\<close> are read only. \<open>doc\<close> is the
  store of the input tree and \<open>fresh\<close> the next unused object identity.
\<close>

record ParseContext =
  popen :: nat
  pfind :: "FindPos list option"
  needsBlock :: bool
  nodes :: "NodeContext list"
  tags :: "ParseRule list"
  styles :: "ParseRule list"
  normalizeLists :: bool
  poptions :: ParseOptions
  isOpen :: bool
  doc :: dom
  fresh :: nat

definition top :: "ParseContext \<Rightarrow> NodeContext" where
  "top s = nodes s ! popen s"

definition set_top :: "NodeContext \<Rightarrow> ParseContext \<Rightarrow> ParseContext" where
  "set_top cx s = s\<lparr>nodes := (nodes s)[popen s := cx]\<rparr>"

text \<open>
  The constructor of \<^verbatim>\<open>ParseContext\<close>; the parser's rules and the tree are given, and
  \<open>k0\<close>, the first object identity that the tree does not use.
\<close>

definition new_ParseContext ::
  "api \<Rightarrow> ParseRule list \<Rightarrow> ParseRule list \<Rightarrow> bool \<Rightarrow> dom \<Rightarrow> nat \<Rightarrow> ParseOptions \<Rightarrow> bool \<Rightarrow>
   ParseContext" where
  "new_ParseContext A tgs stls norm D k0 opts isOp =
     (let topOptions = wsOptionsFor None (o_preserveWhitespace opts) 0 OR
                       (if isOp then OPT_OPEN_LEFT else 0);
          topContext =
            (case o_topNode opts of
               Some topNode \<Rightarrow>
                 new_NodeContext k0 (Some (n_type topNode)) (n_attrs topNode) [] [] True
                   (case o_topMatch opts of
                      Some m \<Rightarrow> Some m
                    | None \<Rightarrow> Some (contentMatch (n_type topNode)))
                   topOptions
             | None \<Rightarrow>
                 if isOp then new_NodeContext k0 None None [] [] True None topOptions
                 else new_NodeContext k0 (Some (topNodeType A)) None [] [] True None topOptions)
      in \<lparr>popen = 0, pfind = o_findPositions opts, needsBlock = False, nodes = [topContext],
          tags = tgs, styles = stls, normalizeLists = norm, poptions = opts, isOpen = isOp,
          doc = D, fresh = Suc k0\<rparr>)"

subsection \<open>Closing frames, positions\<close>

text \<open>
  \<^verbatim>\<open>closeExtra\<close>: every frame above \<open>popen\<close> is finished and appended to the content of
  the frame below it, from the last frame down. Frames above index 0 have a type
  (\<^verbatim>\<open>enterInner\<close> is the only place that pushes), so \<^verbatim>\<open>finish\<close> returns a node there.
\<close>

definition fold_last :: "api \<Rightarrow> bool \<Rightarrow> NodeContext list \<Rightarrow> NodeContext list" where
  "fold_last A openEnd ns =
     (let f = last ns; rest = butlast ns; p = last rest
      in butlast rest @
         [p\<lparr>content := content p @
              (case finish A f openEnd of FNode n \<Rightarrow> [n] | FFragment c \<Rightarrow> [])\<rparr>])"

fun closeExtra_n :: "api \<Rightarrow> bool \<Rightarrow> nat \<Rightarrow> NodeContext list \<Rightarrow> NodeContext list" where
  "closeExtra_n A openEnd 0 ns = ns"
| "closeExtra_n A openEnd (Suc k) ns = closeExtra_n A openEnd k (fold_last A openEnd ns)"

definition closeExtra :: "api \<Rightarrow> bool \<Rightarrow> ParseContext \<Rightarrow> ParseContext" where
  "closeExtra A openEnd s =
     s\<lparr>nodes := closeExtra_n A openEnd (length (nodes s) - 1 - popen s) (nodes s)\<rparr>"

text \<open>\<^verbatim>\<open>sync\<close>: the frames from \<open>popen\<close> down are searched for the object \<open>to\<close>.\<close>

fun sync_from :: "NodeContext list \<Rightarrow> nat \<Rightarrow> nat \<Rightarrow> nat option" where
  "sync_from ns to 0 = (if fid (ns ! 0) = to then Some 0 else None)"
| "sync_from ns to (Suc i) = (if fid (ns ! Suc i) = to then Some (Suc i) else sync_from ns to i)"

definition sync :: "nat \<Rightarrow> ParseContext \<Rightarrow> bool \<times> ParseContext" where
  "sync to s =
     (case sync_from (nodes s) to (popen s) of
        Some i \<Rightarrow> (True, s\<lparr>popen := i\<rparr>)
      | None \<Rightarrow> (False, s))"

text \<open>The getter \<^verbatim>\<open>currentPos\<close>: it calls \<^verbatim>\<open>closeExtra\<close>, so it returns the state too.\<close>

definition currentPos :: "api \<Rightarrow> ParseContext \<Rightarrow> int \<times> ParseContext" where
  "currentPos A s =
     (let s' = closeExtra A False s
      in (int (sum_list (map (\<lambda>cx. sum_list (map (nodeSize A) (content cx)))
                          (take (Suc (popen s')) (nodes s'))) + popen s'), s'))"

subsection \<open>Finding positions\<close>

text \<open>
  The four finders share their loop: for every entry that satisfies the condition, in
  order, \<^verbatim>\<open>pos\<close> is assigned a value computed from \<^verbatim>\<open>currentPos\<close>.
\<close>

definition find_step ::
  "api \<Rightarrow> (FindPos \<Rightarrow> bool) \<Rightarrow> (FindPos \<Rightarrow> int \<Rightarrow> int) \<Rightarrow> nat \<Rightarrow> ParseContext \<Rightarrow> ParseContext" where
  "find_step A cond val i s =
     (case pfind s of
        None \<Rightarrow> s
      | Some fs \<Rightarrow>
          (let e = fs ! i
           in if cond e
              then (let (p, s') = currentPos A s
                    in s'\<lparr>pfind := Some (fs[i := e\<lparr>fp_pos := Some (val e p)\<rparr>])\<rparr>)
              else s))"

definition find_loop ::
  "api \<Rightarrow> (FindPos \<Rightarrow> bool) \<Rightarrow> (FindPos \<Rightarrow> int \<Rightarrow> int) \<Rightarrow> ParseContext \<Rightarrow> ParseContext" where
  "find_loop A cond val s =
     (case pfind s of
        None \<Rightarrow> s
      | Some fs \<Rightarrow> fold (find_step A cond val) [0..<length fs] s)"

definition findAtPoint :: "api \<Rightarrow> nat \<Rightarrow> int \<Rightarrow> ParseContext \<Rightarrow> ParseContext" where
  "findAtPoint A parent offset s =
     find_loop A (\<lambda>e. fp_node e = parent \<and> fp_offset e = offset) (\<lambda>e p. p) s"

definition is_element :: "dom \<Rightarrow> nat \<Rightarrow> bool" where
  "is_element D d = (case D d of None \<Rightarrow> False | Some dn \<Rightarrow> nodeType dn = 1)"

definition findInside :: "api \<Rightarrow> nat \<Rightarrow> ParseContext \<Rightarrow> ParseContext" where
  "findInside A parent s =
     find_loop A (\<lambda>e. fp_pos e = None \<and> is_element (doc s) parent \<and>
                       dom_contains A (doc s) parent (fp_node e)) (\<lambda>e p. p) s"

definition findAround :: "api \<Rightarrow> nat \<Rightarrow> nat \<Rightarrow> bool \<Rightarrow> ParseContext \<Rightarrow> ParseContext" where
  "findAround A parent cont before s =
     (if parent \<noteq> cont
      then find_loop A (\<lambda>e. fp_pos e = None \<and> is_element (doc s) parent \<and>
                            dom_contains A (doc s) parent (fp_node e) \<and>
                            compareDocumentPosition A (doc s) cont (fp_node e) AND
                              (if before then 2 else 4) \<noteq> 0) (\<lambda>e p. p) s
      else s)"

definition nodeValue_length :: "dom \<Rightarrow> nat \<Rightarrow> int" where
  "nodeValue_length D d = (case D d of None \<Rightarrow> 0 | Some dn \<Rightarrow> int (length (nodeValue dn)))"

definition findInText :: "api \<Rightarrow> nat \<Rightarrow> ParseContext \<Rightarrow> ParseContext" where
  "findInText A textNode s =
     find_loop A (\<lambda>e. fp_node e = textNode)
       (\<lambda>e p. p - (nodeValue_length (doc s) textNode - fp_offset e)) s"

subsection \<open>\<^verbatim>\<open>matchesContext\<close>\<close>

text \<open>\<^verbatim>\<open>context.split("/")\<close>\<close>

fun split_on :: "char \<Rightarrow> string \<Rightarrow> string list" where
  "split_on sep [] = [[]]"
| "split_on sep (c # cs) =
     (let r = split_on sep cs in if c = sep then [] # r else (c # hd r) # tl r)"

text \<open>The class \<^verbatim>\<open>\s\<close> of JavaScript's regular expressions, below 256.\<close>

definition is_space :: "char \<Rightarrow> bool" where
  "is_space c = (let n = (of_char c :: nat) in (9 \<le> n \<and> n \<le> 13) \<or> n = 32 \<or> n = 160)"

definition trim_right :: "string \<Rightarrow> string" where
  "trim_right v = rev (dropWhile is_space (rev v))"

definition trim :: "string \<Rightarrow> string" where
  "trim v = trim_right (dropWhile is_space v)"

text \<open>
  \<^verbatim>\<open>context.split(/\s*\|\s*/)\<close>: the string is cut at every \<^verbatim>\<open>|\<close>, and each separator
  takes the white space on both of its sides with it.
\<close>

definition split_pipe :: "string \<Rightarrow> string list" where
  "split_pipe v =
     (let ps = split_on (CHR ''|'') v
      in map (\<lambda>i. (let p = ps ! i;
                        p1 = (if 0 < i then dropWhile is_space p else p)
                    in if Suc i < length ps then trim_right p1 else p1))
           [0..<length ps])"

definition useRoot :: "ParseContext \<Rightarrow> bool" where
  "useRoot s =
     (\<not> isOpen s \<and>
      (case o_context (poptions s) of
         None \<Rightarrow> True
       | Some rp \<Rightarrow> Some (n_type (rp_nodes rp ! rp_depth rp)) = ctype (nodes s ! 0)))"

definition minDepth :: "ParseContext \<Rightarrow> int" where
  "minDepth s =
     - (case o_context (poptions s) of None \<Rightarrow> 0 | Some rp \<Rightarrow> int (rp_depth rp) + 1)
     + (if useRoot s then 0 else 1)"

text \<open>The type \<^verbatim>\<open>next\<close> that a path segment is compared with at \<open>depth\<close>.\<close>

definition context_type :: "ParseContext \<Rightarrow> int \<Rightarrow> NodeType option" where
  "context_type s depth =
     (if 0 < depth \<or> (depth = 0 \<and> useRoot s) then ctype (nodes s ! nat depth)
      else (case o_context (poptions s) of
              Some rp \<Rightarrow> if minDepth s \<le> depth
                         then Some (n_type (rp_nodes rp ! nat (depth - minDepth s))) else None
            | None \<Rightarrow> None))"

text \<open>The local function \<^verbatim>\<open>match(i, depth)\<close>.\<close>

fun match_parts :: "ParseContext \<Rightarrow> string list \<Rightarrow> nat \<Rightarrow> int \<Rightarrow> bool" where
  "match_parts s parts 0 depth =
     (if parts ! 0 = [] then True
      else (case context_type s depth of
              None \<Rightarrow> False
            | Some next \<Rightarrow> \<not> (nt_name next \<noteq> parts ! 0 \<and> parts ! 0 \<notin> set (nt_groups next))))"
| "match_parts s parts (Suc i) depth =
     (if parts ! Suc i = []
      then (if Suc i = length parts - 1 then match_parts s parts i depth
            else list_ex (\<lambda>d. match_parts s parts i d) (rev [minDepth s..depth]))
      else (case context_type s depth of
              None \<Rightarrow> False
            | Some next \<Rightarrow>
                if nt_name next \<noteq> parts ! Suc i \<and> parts ! Suc i \<notin> set (nt_groups next)
                then False
                else match_parts s parts i (depth - 1)))"

definition matchesContext_path :: "ParseContext \<Rightarrow> string \<Rightarrow> bool" where
  "matchesContext_path s cx =
     (let parts = split_on (CHR ''/'') cx
      in match_parts s parts (length parts - 1) (int (popen s)))"

definition matchesContext :: "ParseContext \<Rightarrow> string \<Rightarrow> bool" where
  "matchesContext s cx =
     (if CHR ''|'' \<in> set cx then list_ex (matchesContext_path s) (split_pipe cx)
      else matchesContext_path s cx)"

subsection \<open>The rule store: \<^verbatim>\<open>matchTag\<close> and \<^verbatim>\<open>matchStyle\<close>\<close>

text \<open>
  Both loops return at the first rule that survives; \<open>i\<close> is the index of the head of the
  list of rules still to try. A rule with \<^verbatim>\<open>getAttrs\<close> is returned with its \<^verbatim>\<open>attrs\<close>
  assigned (\<^verbatim>\<open>rule.attrs = result || undefined\<close>). Rules are distinct objects, so
  \<^verbatim>\<open>indexOf(after)\<close> is the index at which \<^verbatim>\<open>after\<close> was found.
\<close>

definition assign_attrs :: "attrs_result \<Rightarrow> ParseRule \<Rightarrow> ParseRule" where
  "assign_attrs res rule = rule\<lparr>r_attrs := (case res of GotAttrs a \<Rightarrow> Some a | _ \<Rightarrow> None)\<rparr>"

definition context_ok :: "ParseContext \<Rightarrow> ParseRule \<Rightarrow> bool" where
  "context_ok s rule =
     (\<not> truthy (r_context rule) \<or> matchesContext s (the (r_context rule)))"

definition tag_applies :: "api \<Rightarrow> ParseContext \<Rightarrow> nat \<Rightarrow> ParseRule \<Rightarrow> bool" where
  "tag_applies A s d rule =
     ((case r_tag rule of None \<Rightarrow> False | Some t \<Rightarrow> css_matches A (doc s) d t) \<and>
      (case r_namespace rule of
         None \<Rightarrow> True
       | Some ns \<Rightarrow> (case doc s d of None \<Rightarrow> False | Some dn \<Rightarrow> namespaceURI dn = ns)) \<and>
      context_ok s rule)"

fun matchTag_loop ::
  "api \<Rightarrow> ParseContext \<Rightarrow> nat \<Rightarrow> ParseRule list \<Rightarrow> nat \<Rightarrow> (nat \<times> ParseRule) option" where
  "matchTag_loop A s d [] i = None"
| "matchTag_loop A s d (rule # rest) i =
     (if tag_applies A s d rule
      then (case r_getAttrs rule of
              None \<Rightarrow> Some (i, rule)
            | Some g \<Rightarrow>
                (case g (doc s) (ArgElement d) of
                   Reject \<Rightarrow> matchTag_loop A s d rest (Suc i)
                 | res \<Rightarrow> Some (i, assign_attrs res rule)))
      else matchTag_loop A s d rest (Suc i))"

definition matchTag :: "api \<Rightarrow> nat \<Rightarrow> nat option \<Rightarrow> ParseContext \<Rightarrow> nat option \<times> ParseContext" where
  "matchTag A d after s =
     (let start = (case after of Some a \<Rightarrow> a + 1 | None \<Rightarrow> 0)
      in case matchTag_loop A s d (drop start (tags s)) start of
           None \<Rightarrow> (None, s)
         | Some (i, rule) \<Rightarrow> (Some i, s\<lparr>tags := (tags s)[i := rule]\<rparr>))"

definition style_applies :: "ParseContext \<Rightarrow> string \<Rightarrow> string \<Rightarrow> ParseRule \<Rightarrow> bool" where
  "style_applies s prop val rule =
     (let stl = (case r_style rule of None \<Rightarrow> [] | Some x \<Rightarrow> x)
      in \<not> (take (length prop) stl \<noteq> prop \<or>
             (truthy (r_context rule) \<and> \<not> matchesContext s (the (r_context rule))) \<or>
             (length prop < length stl \<and>
              (stl ! length prop \<noteq> CHR ''='' \<or> drop (length prop + 1) stl \<noteq> val))))"

fun matchStyle_loop ::
  "ParseContext \<Rightarrow> string \<Rightarrow> string \<Rightarrow> ParseRule list \<Rightarrow> nat \<Rightarrow> (nat \<times> ParseRule) option" where
  "matchStyle_loop s prop val [] i = None"
| "matchStyle_loop s prop val (rule # rest) i =
     (if style_applies s prop val rule
      then (case r_getAttrs rule of
              None \<Rightarrow> Some (i, rule)
            | Some g \<Rightarrow>
                (case g (doc s) (ArgString val) of
                   Reject \<Rightarrow> matchStyle_loop s prop val rest (Suc i)
                 | res \<Rightarrow> Some (i, assign_attrs res rule)))
      else matchStyle_loop s prop val rest (Suc i))"

definition matchStyle ::
  "string \<Rightarrow> string \<Rightarrow> nat option \<Rightarrow> ParseContext \<Rightarrow> nat option \<times> ParseContext" where
  "matchStyle prop val after s =
     (let start = (case after of Some a \<Rightarrow> a + 1 | None \<Rightarrow> 0)
      in case matchStyle_loop s prop val (drop start (styles s)) start of
           None \<Rightarrow> (None, s)
         | Some (i, rule) \<Rightarrow> (Some i, s\<lparr>styles := (styles s)[i := rule]\<rparr>))"

subsection \<open>Entering nodes and placing content\<close>

definition textblockFromContext :: "api \<Rightarrow> ParseContext \<Rightarrow> NodeType option" where
  "textblockFromContext A s =
     (let ok = (\<lambda>t. isTextblock t \<and> defaultAttrs t \<noteq> None);
          fromContext =
            (case o_context (poptions s) of
               None \<Rightarrow> None
             | Some rp \<Rightarrow>
                 List.find (\<lambda>x. x \<noteq> None)
                   (map (\<lambda>d. case defaultType A
                                    (contentMatchAt A (rp_nodes rp ! d) (rp_indexAfter rp ! d)) of
                               None \<Rightarrow> None
                             | Some deflt \<Rightarrow> if ok deflt then Some deflt else None)
                      (rev [0..<Suc (rp_depth rp)])))
      in case fromContext of
           Some (Some t) \<Rightarrow> Some t
         | _ \<Rightarrow> List.find ok (map snd (schema_nodes A)))"

definition enterInner ::
  "api \<Rightarrow> NodeType \<Rightarrow> attrs option \<Rightarrow> bool \<Rightarrow> pws option \<Rightarrow> ParseContext \<Rightarrow> ParseContext" where
  "enterInner A t a sol preserveWS s0 =
     (let s = closeExtra A False s0;
          tp0 = applyPending A (top s) t;
          tp = tp0\<lparr>cmatch := (case cmatch tp0 of None \<Rightarrow> None | Some m \<Rightarrow> matchType A m t)\<rparr>;
          opts0 = wsOptionsFor (Some t) preserveWS (options tp);
          opts = (if options tp AND OPT_OPEN_LEFT \<noteq> 0 \<and> content tp = []
                  then opts0 OR OPT_OPEN_LEFT else opts0);
          s1 = set_top tp s
      in s1\<lparr>nodes := nodes s1 @
                 [new_NodeContext (fresh s) (Some t) a (activeMarks tp) (pendingMarks tp)
                    sol None opts],
            popen := popen s + 1,
            fresh := fresh s + 1\<rparr>)"

text \<open>
  The loop of \<^verbatim>\<open>findPlace\<close>: \<open>route\<close> is the best route so far with the frame (\<^verbatim>\<open>sync\<close>)
  that gave it.
\<close>

fun findPlace_scan ::
  "api \<Rightarrow> node \<Rightarrow> nat \<Rightarrow> (NodeType list \<times> nat) option \<Rightarrow> NodeContext list \<Rightarrow>
   (NodeType list \<times> nat) option \<times> NodeContext list" where
  "findPlace_scan A n depth route ns =
     (let (found, cx) = findWrapping A (ns ! depth) n;
          ns' = ns[depth := cx];
          better = (case found of
                      None \<Rightarrow> False
                    | Some f \<Rightarrow> (case route of None \<Rightarrow> True
                                | Some (r, to) \<Rightarrow> length f < length r));
          route' = (if better then Some (the found, fid cx) else route)
      in if better \<and> the found = [] then (route', ns')
         else if solid cx then (route', ns')
         else (case depth of 0 \<Rightarrow> (route', ns') | Suc d \<Rightarrow> findPlace_scan A n d route' ns'))"

definition findPlace :: "api \<Rightarrow> node \<Rightarrow> ParseContext \<Rightarrow> bool \<times> ParseContext" where
  "findPlace A n s =
     (case findPlace_scan A n (popen s) None (nodes s) of
        (None, ns) \<Rightarrow> (False, s\<lparr>nodes := ns\<rparr>)
      | (Some (route, to), ns) \<Rightarrow>
          (True, fold (\<lambda>t. enterInner A t None False None) route
                   (snd (sync to (s\<lparr>nodes := ns\<rparr>)))))"

definition insertNode :: "api \<Rightarrow> node \<Rightarrow> ParseContext \<Rightarrow> bool \<times> ParseContext" where
  "insertNode A n s0 =
     (let s1 = (if isInline (n_type n) \<and> needsBlock s0 \<and> ctype (top s0) = None
                then (case textblockFromContext A s0 of
                        Some block \<Rightarrow> enterInner A block None False None s0
                      | None \<Rightarrow> s0)
                else s0);
          (ok, s2) = findPlace A n s1
      in if ok
         then (let s3 = closeExtra A False s2;
                   tp0 = applyPending A (top s3) (n_type n);
                   tp1 = (case cmatch tp0 of
                            Some m \<Rightarrow> tp0\<lparr>cmatch := matchType A m (n_type n)\<rparr>
                          | None \<Rightarrow> tp0);
                   ms = fold (\<lambda>m acc. if (case ctype tp1 of None \<Rightarrow> True
                                            | Some t \<Rightarrow> allowsMarkType A t (mk_type m))
                                        then addToSet m acc else acc)
                          (n_marks n) (activeMarks tp1)
               in (True, set_top (tp1\<lparr>content := content tp1 @ [node_mark n ms]\<rparr>) s3))
         else (False, s2))"

definition enter ::
  "api \<Rightarrow> NodeType \<Rightarrow> attrs option \<Rightarrow> pws option \<Rightarrow> ParseContext \<Rightarrow> bool \<times> ParseContext" where
  "enter A t a preserveWS s =
     (let (ok, s1) = findPlace A (type_create t a [] []) s
      in if ok then (True, enterInner A t a True preserveWS s1) else (False, s1))"

subsection \<open>Pending marks\<close>

definition addPendingMark :: "Mark \<Rightarrow> ParseContext \<Rightarrow> ParseContext" where
  "addPendingMark m s =
     (let tp = top s;
          tp1 = (case findSameMarkInSet m (pendingMarks tp) of
                   Some found \<Rightarrow> tp\<lparr>stashMarks := stashMarks tp @ [found]\<rparr>
                 | None \<Rightarrow> tp)
      in set_top (tp1\<lparr>pendingMarks := addToSet m (pendingMarks tp1)\<rparr>) s)"

text \<open>
  One round of the loop of \<^verbatim>\<open>removePendingMark\<close>; \<^verbatim>\<open>lastIndexOf\<close> looks for the object
  \<open>m\<close> itself.
\<close>

definition removePending_level :: "api \<Rightarrow> Mark \<Rightarrow> NodeContext \<Rightarrow> NodeContext" where
  "removePending_level A m level =
     (if m \<in> set (pendingMarks level)
      then level\<lparr>pendingMarks := removeFromSet m (pendingMarks level)\<rparr>
      else (let l1 = level\<lparr>activeMarks := removeFromSet m (activeMarks level)\<rparr>;
                (stashMark, l2) = popFromStashMark m l1
            in case stashMark of
                 None \<Rightarrow> l2
               | Some sm \<Rightarrow>
                   (case ctype l2 of
                      None \<Rightarrow> l2
                    | Some t \<Rightarrow> if allowsMarkType A t (mk_type sm)
                               then l2\<lparr>activeMarks := addToSet sm (activeMarks l2)\<rparr>
                               else l2)))"

fun removePendingMark_from ::
  "api \<Rightarrow> Mark \<Rightarrow> nat \<Rightarrow> nat \<Rightarrow> NodeContext list \<Rightarrow> NodeContext list" where
  "removePendingMark_from A m upTo depth ns =
     (let level = removePending_level A m (ns ! depth);
          ns' = ns[depth := level]
      in if fid level = upTo then ns'
         else (case depth of 0 \<Rightarrow> ns' | Suc d \<Rightarrow> removePendingMark_from A m upTo d ns'))"

definition removePendingMark :: "api \<Rightarrow> Mark \<Rightarrow> nat \<Rightarrow> ParseContext \<Rightarrow> ParseContext" where
  "removePendingMark A m upTo s =
     s\<lparr>nodes := removePendingMark_from A m upTo (popen s) (nodes s)\<rparr>"

subsection \<open>Navigation in the input tree\<close>

definition children_of :: "dom \<Rightarrow> nat \<Rightarrow> nat list" where
  "children_of D p = (case D p of None \<Rightarrow> [] | Some pn \<Rightarrow> childNodes pn)"

definition firstChild :: "dom \<Rightarrow> nat \<Rightarrow> nat option" where
  "firstChild D p = (case children_of D p of [] \<Rightarrow> None | c # cs \<Rightarrow> Some c)"

fun after_in :: "nat \<Rightarrow> nat list \<Rightarrow> nat option" where
  "after_in x (y # z # r) = (if y = x then Some z else after_in x (z # r))"
| "after_in x r = None"

fun before_in :: "nat \<Rightarrow> nat list \<Rightarrow> nat option" where
  "before_in x (y # z # r) = (if z = x then Some y else before_in x (z # r))"
| "before_in x r = None"

definition nextSibling :: "dom \<Rightarrow> nat \<Rightarrow> nat option" where
  "nextSibling D d =
     (case D d of
        None \<Rightarrow> None
      | Some dn \<Rightarrow> (case parentNode dn of
                     None \<Rightarrow> None
                   | Some p \<Rightarrow> after_in d (children_of D p)))"

definition previousSibling :: "dom \<Rightarrow> nat \<Rightarrow> DOMNode \<Rightarrow> nat option" where
  "previousSibling D d dn =
     (case parentNode dn of None \<Rightarrow> None | Some p \<Rightarrow> before_in d (children_of D p))"

definition child_at :: "nat list \<Rightarrow> nat \<Rightarrow> nat option" where
  "child_at cs i = (if i < length cs then Some (cs ! i) else None)"

subsection \<open>\<^verbatim>\<open>normalizeList\<close>\<close>

text \<open>\<^verbatim>\<open>prevItem.appendChild(child)\<close>: \<open>child\<close> leaves its parent and becomes the last child of \<open>item\<close>.\<close>

definition appendChild :: "nat \<Rightarrow> nat \<Rightarrow> dom \<Rightarrow> dom" where
  "appendChild item child D =
     (case D child of
        None \<Rightarrow> D
      | Some cn \<Rightarrow>
          (let D1 = (case parentNode cn of
                       None \<Rightarrow> D
                     | Some p \<Rightarrow> (case D p of
                                    None \<Rightarrow> D
                                  | Some pn \<Rightarrow> D(p \<mapsto> pn\<lparr>childNodes := removeAll child (childNodes pn)\<rparr>)));
               D2 = D1(child \<mapsto> cn\<lparr>parentNode := Some item\<rparr>)
           in case D2 item of
                None \<Rightarrow> D2
              | Some itn \<Rightarrow> D2(item \<mapsto> itn\<lparr>childNodes := childNodes itn @ [child]\<rparr>)))"

text \<open>
  The loop visits the children in order. After a nested list has been moved into
  \<open>prevItem\<close> the source goes on from \<open>prevItem\<close>; the nodes it sees again before it
  reaches the next child have no element name (an element with a name would have reset
  or replaced \<open>prevItem\<close>) and are passed over, so one pass over the children suffices.
\<close>

fun normalizeList_loop :: "nat list \<Rightarrow> nat option \<Rightarrow> dom \<Rightarrow> dom" where
  "normalizeList_loop [] prevItem D = D"
| "normalizeList_loop (child # rest) prevItem D =
     (let name = (case D child of
                    None \<Rightarrow> None
                  | Some cn \<Rightarrow> if nodeType cn = 1 then Some (toLowerCase (nodeName cn)) else None)
      in if truthy name \<and> the name \<in> set listTags \<and> prevItem \<noteq> None
         then normalizeList_loop rest prevItem (appendChild (the prevItem) child D)
         else if name = Some ''li'' then normalizeList_loop rest (Some child) D
         else if truthy name then normalizeList_loop rest None D
         else normalizeList_loop rest prevItem D)"

definition normalizeList :: "nat \<Rightarrow> dom \<Rightarrow> dom" where
  "normalizeList d D = normalizeList_loop (children_of D d) None D"

subsection \<open>\<^verbatim>\<open>parseStyles\<close>\<close>

text \<open>
  The expression \<^verbatim>\<open>/\s*([\w-]+)\s*:\s*([^;]+)/g\<close> tried at the start of \<open>cs\<close>: the two
  groups and the rest of the string after the match. White space, name characters, the
  colon and the semicolon are disjoint classes, so only the last \<^verbatim>\<open>\s*\<close> can give
  characters back: when nothing but white space precedes the next semicolon (or the
  end), the value is the last of these white-space characters.
\<close>

definition is_name_char :: "char \<Rightarrow> bool" where
  "is_name_char c =
     (let n = (of_char c :: nat)
      in (48 \<le> n \<and> n \<le> 57) \<or> (65 \<le> n \<and> n \<le> 90) \<or> (97 \<le> n \<and> n \<le> 122) \<or>
         c = CHR ''_'' \<or> c = CHR ''-'')"

definition style_at :: "string \<Rightarrow> (string \<times> string \<times> string) option" where
  "style_at cs =
     (let a = dropWhile is_space cs;
          w = takeWhile is_name_char a;
          c = dropWhile is_space (dropWhile is_name_char a)
      in if w = [] then None
         else (case c of
                 [] \<Rightarrow> None
               | x # d \<Rightarrow>
                   if x \<noteq> CHR '':'' then None
                   else (let sp = takeWhile is_space d;
                             e = dropWhile is_space d;
                             v = takeWhile (\<lambda>y. y \<noteq> CHR '';'') e
                         in if v \<noteq> [] then Some (w, v, dropWhile (\<lambda>y. y \<noteq> CHR '';'') e)
                            else if sp \<noteq> [] then Some (w, [last sp], e)
                            else None)))"

lemma style_at_shorter: "style_at cs = Some (w, v, rest) \<Longrightarrow> length rest < length cs"
proof -
  have dw: "\<And>P (xs :: string). length (dropWhile P xs) \<le> length xs"
    by (simp add: length_dropWhile_le)
  assume a: "style_at cs = Some (w, v, rest)"
  define c where "c = dropWhile is_space (dropWhile is_name_char (dropWhile is_space cs))"
  have c_le: "length c \<le> length cs"
    unfolding c_def by (meson dw le_trans)
  from a obtain x d where cd: "c = x # d"
    and r: "rest = dropWhile (\<lambda>y. y \<noteq> CHR '';'') (dropWhile is_space d) \<or> rest = dropWhile is_space d"
    unfolding style_at_def c_def [symmetric] Let_def
    by (auto split: if_splits list.splits)
  have "length rest \<le> length d"
    using r by (metis dw le_trans)
  with cd c_le show ?thesis by simp
qed

function parseStyles :: "string \<Rightarrow> (string \<times> string) list" where
  "parseStyles cs =
     (if cs = [] then []
      else (case style_at cs of
              Some (w, v, rest) \<Rightarrow> (w, trim v) # parseStyles rest
            | None \<Rightarrow> parseStyles (tl cs)))"
  by pat_completeness auto
termination
  by (relation "measure length") (auto dest: style_at_shorter)

subsection \<open>Text, fallbacks, styles\<close>

datatype error = TypeError | OutOfFuel

definition addTextNode :: "api \<Rightarrow> nat \<Rightarrow> DOMNode \<Rightarrow> ParseContext \<Rightarrow> ParseContext" where
  "addTextNode A d dn s =
     (let val = nodeValue dn; tp = top s
      in if options tp AND OPT_PRESERVE_WS_FULL \<noteq> 0 \<or> inlineContext (doc s) tp dn \<or>
            has_non_ws val
         then (let val1 =
                 (if options tp AND OPT_PRESERVE_WS = 0
                  then (let v = collapse_ws val
                        in if (v \<noteq> [] \<and> is_ws (hd v)) \<and> popen s = length (nodes s) - 1
                           then (if content tp = [] \<or>
                                    (case previousSibling (doc s) d dn of
                                       None \<Rightarrow> False
                                     | Some b \<Rightarrow> (case doc s b of
                                                    None \<Rightarrow> False
                                                  | Some bn \<Rightarrow> nodeName bn = ''BR'')) \<or>
                                    (case n_text (last (content tp)) of
                                       None \<Rightarrow> False
                                     | Some t \<Rightarrow> t \<noteq> [] \<and> is_ws (last t))
                                 then tl v else v)
                           else v)
                  else if options tp AND OPT_PRESERVE_WS_FULL = 0 then newlines_to_spaces val
                  else normalize_newlines val);
                   s1 = (if val1 \<noteq> [] then snd (insertNode A (schema_text A val1) s) else s)
               in findInText A d s1)
         else findInside A d s)"

text \<open>
  \<^verbatim>\<open>leafFallback\<close>; \<^verbatim>\<open>createTextNode("\n")\<close> allocates a text node without parent.
\<close>

definition leafFallback :: "api \<Rightarrow> DOMNode \<Rightarrow> ParseContext \<Rightarrow> ParseContext" where
  "leafFallback A dn s =
     (if nodeName dn = ''BR'' \<and> (case ctype (top s) of None \<Rightarrow> False | Some t \<Rightarrow> inlineContent t)
      then (let tn = \<lparr>nodeType = 3, nodeName = ''#text'', nodeValue = [CHR 0x0A],
                      styleAttr = None, namespaceURI = None, childNodes = [],
                      parentNode = None\<rparr>
            in addTextNode A (fresh s) tn
                 (s\<lparr>doc := (doc s)(fresh s \<mapsto> tn), fresh := fresh s + 1\<rparr>))
      else s)"

definition ignoreFallback :: "api \<Rightarrow> DOMNode \<Rightarrow> ParseContext \<Rightarrow> ParseContext" where
  "ignoreFallback A dn s =
     (if nodeName dn = ''BR'' \<and> (case ctype (top s) of None \<Rightarrow> True | Some t \<Rightarrow> \<not> inlineContent t)
      then snd (findPlace A (schema_text A ''-'') s)
      else s)"

text \<open>
  \<^verbatim>\<open>readStyles\<close>. \<open>readStyles_rules\<close> is the inner loop for one property: \<open>after\<close> is
  the rule to continue behind, \<open>acc\<close> the sets \<^verbatim>\<open>add\<close> and \<^verbatim>\<open>remove\<close>. The result
  \<open>None\<close> is the source's \<^verbatim>\<open>null\<close>. A rule that names no mark type of the schema makes
  \<^verbatim>\<open>schema.marks[rule.mark!].create\<close> throw.
\<close>

lemma matchStyle_loop_bounds:
  "matchStyle_loop s prop val rules i = Some (j, r) \<Longrightarrow> i \<le> j \<and> j < i + length rules"
  by (induction rules arbitrary: i) (fastforce split: if_splits option.splits attrs_result.splits)+

lemma matchStyle_index:
  "matchStyle prop val after s = (Some j, s') \<Longrightarrow>
     (case after of Some a \<Rightarrow> a + 1 | None \<Rightarrow> 0) \<le> j \<and> j < length (styles s) \<and>
     length (styles s') = length (styles s)"
proof -
  assume a: "matchStyle prop val after s = (Some j, s')"
  define start where "start = (case after of Some a \<Rightarrow> a + 1 | None \<Rightarrow> (0::nat))"
  from a obtain r where l: "matchStyle_loop s prop val (drop start (styles s)) start = Some (j, r)"
    and s': "s' = s\<lparr>styles := (styles s)[j := r]\<rparr>"
    unfolding matchStyle_def Let_def start_def [symmetric]
    by (auto split: option.splits)
  from matchStyle_loop_bounds [OF l] have "start \<le> j" "j < start + length (drop start (styles s))"
    by simp_all
  then show ?thesis
    unfolding start_def [symmetric] using s' by auto
qed

function readStyles_rules ::
  "api \<Rightarrow> string \<Rightarrow> string \<Rightarrow> nat option \<Rightarrow> Mark list \<times> Mark list \<Rightarrow> ParseContext \<Rightarrow>
   error + ((Mark list \<times> Mark list) option \<times> ParseContext)" where
  "readStyles_rules A prop val after acc s =
     (case matchStyle prop val after s of
        (None, s1) \<Rightarrow> Inr (Some acc, s1)
      | (Some i, s1) \<Rightarrow>
          (let rule = styles s1 ! i
           in if r_ignore rule then Inr (None, s1)
              else (case (case r_clearMark rule of
                            Some clear \<Rightarrow>
                              Inr ((fst acc,
                                    fold (\<lambda>m remove. if clear m then addToSet m remove else remove)
                                      (pendingMarks (top s1)) (snd acc)), s1)
                          | None \<Rightarrow>
                              (case r_mark rule of
                                 None \<Rightarrow> Inl TypeError
                               | Some mt \<Rightarrow>
                                   (case mark_create A mt (r_attrs rule) (fresh s1) of
                                      None \<Rightarrow> Inl TypeError
                                    | Some mk \<Rightarrow>
                                        Inr ((addToSet mk (fst acc), snd acc),
                                             s1\<lparr>fresh := fresh s1 + 1\<rparr>)))) of
                      Inl e \<Rightarrow> Inl e
                    | Inr (acc', s2) \<Rightarrow>
                        if r_consuming rule = Some False
                        then readStyles_rules A prop val (Some i) acc' s2
                        else Inr (Some acc', s2))))"
  by pat_completeness auto
termination
  by (relation "measure (\<lambda>(A, prop, val, after, acc, s).
        length (styles s) - (case after of Some a \<Rightarrow> a + 1 | None \<Rightarrow> 0))")
     (auto dest!: matchStyle_index sym [of "(Some _, _)"] split: option.splits if_splits)

fun readStyles_pairs ::
  "api \<Rightarrow> (string \<times> string) list \<Rightarrow> Mark list \<times> Mark list \<Rightarrow> ParseContext \<Rightarrow>
   error + ((Mark list \<times> Mark list) option \<times> ParseContext)" where
  "readStyles_pairs A [] acc s = Inr (Some acc, s)"
| "readStyles_pairs A ((prop, val) # rest) acc s =
     (case readStyles_rules A prop val None acc s of
        Inl e \<Rightarrow> Inl e
      | Inr (None, s1) \<Rightarrow> Inr (None, s1)
      | Inr (Some acc', s1) \<Rightarrow> readStyles_pairs A rest acc' s1)"

definition readStyles ::
  "api \<Rightarrow> (string \<times> string) list \<Rightarrow> ParseContext \<Rightarrow>
   error + ((Mark list \<times> Mark list) option \<times> ParseContext)" where
  "readStyles A stls s = readStyles_pairs A stls ([], []) s"

declare parseStyles.simps [simp del]
declare readStyles_rules.simps [simp del]
declare findPlace_scan.simps [simp del]
declare removePendingMark_from.simps [simp del]

subsection \<open>The tree walker\<close>

text \<open>
  \<^verbatim>\<open>addDOM\<close>, \<^verbatim>\<open>addElement\<close>, \<^verbatim>\<open>addElementByRule\<close> and \<^verbatim>\<open>addAll\<close> call each other along
  the input tree, which a rule's \<^verbatim>\<open>contentElement\<close> or \<^verbatim>\<open>skip\<close> may leave for any other
  node. The first argument bounds the depth of the calls: when it is used up the result
  is \<open>Inl OutOfFuel\<close>. \<open>Inl TypeError\<close> is the exception the source throws when it reads
  a property of \<^verbatim>\<open>null\<close> or \<^verbatim>\<open>undefined\<close>.

  In \<open>addElement\<close>, \<open>matchAfter\<close> is the index of the rule to continue behind, and in
  \<open>addElementByRule\<close> \<open>continueAfter\<close> likewise.
\<close>

definition lookup_rule :: "api \<Rightarrow> nat \<Rightarrow> nat option \<Rightarrow> ParseContext \<Rightarrow>
    (ParseRule \<times> nat option) option \<times> ParseContext" where
  "lookup_rule A d matchAfter s =
     (case (case o_ruleFromNode (poptions s) of
              None \<Rightarrow> None
            | Some f \<Rightarrow> f (doc s) d) of
        Some rule \<Rightarrow> (Some (rule, None), s)
      | None \<Rightarrow>
          (case matchTag A d matchAfter s of
             (None, s1) \<Rightarrow> (None, s1)
           | (Some i, s1) \<Rightarrow> (Some (tags s1 ! i, Some i), s1)))"

text \<open>
  The parts of the four functions between their recursive calls are definitions of their
  own. What \<^verbatim>\<open>addDOM\<close> does with an element before it calls \<^verbatim>\<open>addElement\<close>: the element
  is dropped (\<open>DomDone\<close>, a style with \<^verbatim>\<open>ignore\<close>, or a node that is neither text nor
  element), or \<^verbatim>\<open>addElement\<close> follows, with the marks to take back afterwards and the
  frame \<^verbatim>\<open>top\<close>.
\<close>

datatype dom_plan =
  DomDone ParseContext
| DomElement "Mark list" "Mark list" nat ParseContext

definition addDOM_open :: "api \<Rightarrow> nat \<Rightarrow> ParseContext \<Rightarrow> error + dom_plan" where
  "addDOM_open A d s =
     (case doc s d of
        None \<Rightarrow> Inl TypeError
      | Some dn \<Rightarrow>
          if nodeType dn = 3 then Inr (DomDone (addTextNode A d dn s))
          else if nodeType dn = 1
          then (if \<not> truthy (styleAttr dn) then Inr (DomElement [] [] (fid (top s)) s)
                else (case readStyles A (parseStyles (the (styleAttr dn))) s of
                        Inl e \<Rightarrow> Inl e
                      | Inr (None, s1) \<Rightarrow> Inr (DomDone s1)
                      | Inr (Some (addMarks, removeMarks), s1) \<Rightarrow>
                          (let tp = fid (top s1);
                               s2 = fold (\<lambda>m. removePendingMark A m tp) removeMarks s1;
                               s3 = fold addPendingMark addMarks s2
                           in Inr (DomElement addMarks removeMarks tp s3))))
          else Inr (DomDone s))"

definition addDOM_close :: "api \<Rightarrow> Mark list \<Rightarrow> Mark list \<Rightarrow> nat \<Rightarrow> ParseContext \<Rightarrow> ParseContext" where
  "addDOM_close A addMarks removeMarks tp s4 =
     fold addPendingMark removeMarks (fold (\<lambda>m. removePendingMark A m tp) addMarks s4)"

text \<open>
  \<^verbatim>\<open>addElement\<close> up to its recursive call: it returns (\<open>ElDone\<close>: an ignored element, or
  the leaf fallback), or goes on with \<^verbatim>\<open>addAll(dom)\<close> (\<open>ElAll\<close>: the node to descend
  into, the frame to \<^verbatim>\<open>sync\<close> with if any, the old \<^verbatim>\<open>needsBlock\<close>), or with
  \<^verbatim>\<open>addElementByRule\<close> (\<open>ElByRule\<close>).
\<close>

datatype element_plan =
  ElDone ParseContext
| ElAll nat "nat option" bool ParseContext
| ElByRule ParseRule "nat option" ParseContext

definition addElement_open ::
  "api \<Rightarrow> nat \<Rightarrow> nat option \<Rightarrow> ParseContext \<Rightarrow> error + element_plan" where
  "addElement_open A d matchAfter s0 =
     (case doc s0 d of
        None \<Rightarrow> Inl TypeError
      | Some dn0 \<Rightarrow>
          (let name = toLowerCase (nodeName dn0);
               sN = (if name \<in> set listTags \<and> normalizeLists s0
                     then s0\<lparr>doc := normalizeList d (doc s0)\<rparr> else s0);
               (found, s) = lookup_rule A d matchAfter sN
           in if (case found of Some (rule, ruleID) \<Rightarrow> r_ignore rule
                  | None \<Rightarrow> name \<in> set ignoreTags)
              then Inr (ElDone (ignoreFallback A dn0 (findInside A d s)))
              else if (case found of None \<Rightarrow> True
                       | Some (rule, ruleID) \<Rightarrow> r_skip rule \<noteq> SkipFalse \<or> r_closeParent rule)
              then (let s1 = (case found of
                                Some (rule, ruleID) \<Rightarrow>
                                  if r_closeParent rule then s\<lparr>popen := popen s - 1\<rparr> else s
                              | None \<Rightarrow> s);
                        d1 = (case found of
                                Some (rule, ruleID) \<Rightarrow>
                                  (if r_closeParent rule then d
                                   else (case r_skip rule of SkipNode x \<Rightarrow> x | _ \<Rightarrow> d))
                              | None \<Rightarrow> d);
                        oldNeedsBlock = needsBlock s1
                    in if name \<in> set blockTags
                       then (let s2 = (if content (top s1) \<noteq> [] \<and>
                                          isInline (n_type (hd (content (top s1)))) \<and> popen s1 \<noteq> 0
                                       then s1\<lparr>popen := popen s1 - 1\<rparr> else s1);
                                 s3 = (if ctype (top s2) = None then s2\<lparr>needsBlock := True\<rparr> else s2)
                             in Inr (ElAll d1 (Some (fid (top s2))) oldNeedsBlock s3))
                       else (case doc s1 d1 of
                               None \<Rightarrow> Inl TypeError
                             | Some dn1 \<Rightarrow>
                                 if childNodes dn1 = [] then Inr (ElDone (leafFallback A dn1 s1))
                                 else Inr (ElAll d1 None oldNeedsBlock s1)))
              else (case found of
                      None \<Rightarrow> Inr (ElDone s)
                    | Some (rule, ruleID) \<Rightarrow>
                        Inr (ElByRule rule (if r_consuming rule = Some False then ruleID else None) s))))"

definition addElement_close :: "nat option \<Rightarrow> bool \<Rightarrow> ParseContext \<Rightarrow> ParseContext" where
  "addElement_close sy oldNeedsBlock s4 =
     (case sy of
        Some tp \<Rightarrow> (snd (sync tp s4))\<lparr>needsBlock := oldNeedsBlock\<rparr>
      | None \<Rightarrow> s4\<lparr>needsBlock := oldNeedsBlock\<rparr>)"

text \<open>
  \<^verbatim>\<open>addElementByRule\<close>, first part: the node is entered or inserted, or the mark is
  pushed. The result is \<^verbatim>\<open>sync\<close>, \<^verbatim>\<open>nodeType\<close>, \<^verbatim>\<open>mark\<close> and the state.
\<close>

definition byRule_open ::
  "api \<Rightarrow> nat \<Rightarrow> ParseRule \<Rightarrow> ParseContext \<Rightarrow>
   error + (bool \<times> NodeType option \<times> Mark option \<times> ParseContext)" where
  "byRule_open A d rule s =
     (if truthy (r_node rule)
      then (case map_of (schema_nodes A) (the (r_node rule)) of
              None \<Rightarrow> Inl TypeError
            | Some t \<Rightarrow>
                if \<not> isLeaf t
                then (let (ok, s1) = enter A t (r_attrs rule) (r_preserveWhitespace rule) s
                      in Inr (ok, Some t, None, s1))
                else (let (ok, s1) = insertNode A (type_create t (r_attrs rule) [] []) s
                      in if \<not> ok
                         then (case doc s1 d of
                                 None \<Rightarrow> Inl TypeError
                               | Some dn \<Rightarrow> Inr (False, Some t, None, leafFallback A dn s1))
                         else Inr (False, Some t, None, s1)))
      else (case r_mark rule of
              None \<Rightarrow> Inl TypeError
            | Some mt \<Rightarrow>
                (case mark_create A mt (r_attrs rule) (fresh s) of
                   None \<Rightarrow> Inl TypeError
                 | Some mk \<Rightarrow>
                     Inr (False, None, Some mk, addPendingMark mk (s\<lparr>fresh := fresh s + 1\<rparr>)))))"

text \<open>
  Second part: what is read as the content. \<open>CDone\<close>: nothing more to walk (a leaf, or
  \<^verbatim>\<open>getContent\<close>); \<open>CAgain\<close>: the element is dispatched again behind the rule;
  \<open>CAll\<close>: the children of the content element are added.
\<close>

datatype content_plan =
  CDone ParseContext
| CAgain ParseContext
| CAll nat ParseContext

definition byRule_content ::
  "api \<Rightarrow> nat \<Rightarrow> ParseRule \<Rightarrow> nat option \<Rightarrow> NodeType option \<Rightarrow> ParseContext \<Rightarrow>
   error + content_plan" where
  "byRule_content A d rule continueAfter nodeTy s1 =
     (if (case nodeTy of Some t \<Rightarrow> isLeaf t | None \<Rightarrow> False)
      then Inr (CDone (findInside A d s1))
      else if continueAfter \<noteq> None then Inr (CAgain s1)
      else (case r_getContent rule of
              Some getContent \<Rightarrow>
                (let s2 = findInside A d s1
                 in Inr (CDone (fold (\<lambda>n st. snd (insertNode A n st)) (getContent (doc s2) d) s2)))
            | None \<Rightarrow>
                (case (case r_contentElement rule of
                         None \<Rightarrow> Some d
                       | Some (CESelector sel) \<Rightarrow> querySelector A (doc s1) d sel
                       | Some (CEFunction f) \<Rightarrow> Some (f (doc s1) d)
                       | Some (CEElement el) \<Rightarrow> Some el) of
                   None \<Rightarrow> Inl TypeError
                 | Some contentDOM \<Rightarrow> Inr (CAll contentDOM (findAround A d contentDOM True s1)))))"

text \<open>Last part: the frame is left and the mark is taken back.\<close>

definition byRule_close ::
  "api \<Rightarrow> bool \<Rightarrow> Mark option \<Rightarrow> nat \<Rightarrow> ParseContext \<Rightarrow> ParseContext" where
  "byRule_close A syn mrk startIn s3 =
     (let s4 = (if syn
                then (case sync startIn s3 of
                        (True, s') \<Rightarrow> s'\<lparr>popen := popen s' - 1\<rparr>
                      | (False, s') \<Rightarrow> s')
                else s3)
      in case mrk of
           Some mk \<Rightarrow> removePendingMark A mk startIn s4
         | None \<Rightarrow> s4)"

text \<open>
  The four functions call each other along the input tree, which a rule's
  \<^verbatim>\<open>contentElement\<close> or \<^verbatim>\<open>skip\<close> may leave for any other node. \<open>walk\<close> is their
  common definition: a \<open>call\<close> names the function called and its arguments, and the
  number bounds the depth of the calls; when it is used up the result is
  \<open>Inl OutOfFuel\<close>. \<open>Inl TypeError\<close> is the exception the source throws when it reads a
  property of \<^verbatim>\<open>null\<close> or \<^verbatim>\<open>undefined\<close>. \<open>matchAfter\<close> and \<open>continueAfter\<close> are
  the index of the rule to continue behind. \<open>CallAll\<close> is the loop of \<^verbatim>\<open>addAll\<close>, \<open>cur\<close>
  and \<open>stop\<close> being its variables \<^verbatim>\<open>dom\<close> and \<^verbatim>\<open>end\<close>.
\<close>

datatype call =
  CallDOM nat ParseContext
| CallElement nat "nat option" ParseContext
| CallByRule nat ParseRule "nat option" ParseContext
| CallAll nat "nat option" "nat option" int ParseContext

primrec walk :: "api \<Rightarrow> nat \<Rightarrow> call \<Rightarrow> error + ParseContext" where
  "walk A 0 = (\<lambda>c. Inl OutOfFuel)"
| "walk A (Suc k) = (\<lambda>c. case c of
     CallDOM d s \<Rightarrow>
     (case addDOM_open A d s of
        Inl e \<Rightarrow> Inl e
      | Inr (DomDone s1) \<Rightarrow> Inr s1
      | Inr (DomElement addMarks removeMarks tp s3) \<Rightarrow>
          (case walk A k (CallElement d None s3) of
             Inl e \<Rightarrow> Inl e
           | Inr s4 \<Rightarrow> Inr (addDOM_close A addMarks removeMarks tp s4)))
   | CallElement d matchAfter s \<Rightarrow>
     (case addElement_open A d matchAfter s of
        Inl e \<Rightarrow> Inl e
      | Inr (ElDone s1) \<Rightarrow> Inr s1
      | Inr (ElAll d1 sy oldNeedsBlock s3) \<Rightarrow>
          (case walk A k (CallAll d1 (firstChild (doc s3) d1) None 0 s3) of
             Inl e \<Rightarrow> Inl e
           | Inr s4 \<Rightarrow> Inr (addElement_close sy oldNeedsBlock s4))
      | Inr (ElByRule rule continueAfter s1) \<Rightarrow> walk A k (CallByRule d rule continueAfter s1))
   | CallByRule d rule continueAfter s \<Rightarrow>
     (case byRule_open A d rule s of
        Inl e \<Rightarrow> Inl e
      | Inr (syn, nodeTy, mrk, s1) \<Rightarrow>
          (case (case byRule_content A d rule continueAfter nodeTy s1 of
                   Inl e \<Rightarrow> Inl e
                 | Inr (CDone s2) \<Rightarrow> Inr s2
                 | Inr (CAgain s2) \<Rightarrow> walk A k (CallElement d continueAfter s2)
                 | Inr (CAll contentDOM s2) \<Rightarrow>
                     walk A k (CallAll contentDOM (firstChild (doc s2) contentDOM) None 0 s2)) of
             Inl e \<Rightarrow> Inl e
           | Inr s3 \<Rightarrow> Inr (byRule_close A syn mrk (fid (top s1)) s3)))
   | CallAll parent cur stop index s \<Rightarrow>
     (if cur = stop then Inr (findAtPoint A parent index s)
      else (case cur of
              None \<Rightarrow> Inl TypeError
            | Some d \<Rightarrow>
                (case walk A k (CallDOM d (findAtPoint A parent index s)) of
                   Inl e \<Rightarrow> Inl e
                 | Inr s1 \<Rightarrow> walk A k (CallAll parent (nextSibling (doc s1) d) stop (index + 1) s1)))))"


definition addElement ::
  "nat \<Rightarrow> api \<Rightarrow> nat \<Rightarrow> nat option \<Rightarrow> ParseContext \<Rightarrow> error + ParseContext" where
  "addElement k A d matchAfter s = walk A k (CallElement d matchAfter s)"

definition addElementByRule ::
  "nat \<Rightarrow> api \<Rightarrow> nat \<Rightarrow> ParseRule \<Rightarrow> nat option \<Rightarrow> ParseContext \<Rightarrow> error + ParseContext" where
  "addElementByRule k A d rule continueAfter s = walk A k (CallByRule d rule continueAfter s)"

definition addAll_loop ::
  "nat \<Rightarrow> api \<Rightarrow> nat \<Rightarrow> nat option \<Rightarrow> nat option \<Rightarrow> int \<Rightarrow> ParseContext \<Rightarrow>
   error + ParseContext" where
  "addAll_loop k A parent cur stop index s = walk A k (CallAll parent cur stop index s)"

text \<open>\<^verbatim>\<open>addAll(parent, startIndex, endIndex)\<close>\<close>

definition addAll ::
  "nat \<Rightarrow> api \<Rightarrow> nat \<Rightarrow> nat option \<Rightarrow> nat option \<Rightarrow> ParseContext \<Rightarrow> error + ParseContext" where
  "addAll k A parent startIndex endIndex s =
     (case doc s parent of
        None \<Rightarrow> Inl TypeError
      | Some pn \<Rightarrow>
          addAll_loop k A parent
            (case startIndex of
               None \<Rightarrow> firstChild (doc s) parent
             | Some i \<Rightarrow> if i = 0 then firstChild (doc s) parent else child_at (childNodes pn) i)
            (case endIndex of None \<Rightarrow> None | Some e \<Rightarrow> child_at (childNodes pn) e)
            (case startIndex of None \<Rightarrow> 0 | Some i \<Rightarrow> int i)
            s)"

text \<open>\<^verbatim>\<open>ParseContext.finish\<close>, \<^verbatim>\<open>DOMParser.parse\<close> and \<^verbatim>\<open>DOMParser.parseSlice\<close> (before \<^verbatim>\<open>Slice.maxOpen\<close>).\<close>

definition pfinish :: "api \<Rightarrow> ParseContext \<Rightarrow> finished \<times> ParseContext" where
  "pfinish A s =
     (let s1 = closeExtra A (isOpen s) (s\<lparr>popen := 0\<rparr>)
      in (finish A (nodes s1 ! 0) (isOpen s \<or> o_topOpen (poptions s)), s1))"

definition parse_with ::
  "bool \<Rightarrow> nat \<Rightarrow> api \<Rightarrow> ParseRule list \<Rightarrow> ParseRule list \<Rightarrow> bool \<Rightarrow> dom \<Rightarrow> nat \<Rightarrow> nat \<Rightarrow>
   ParseOptions \<Rightarrow> error + (finished \<times> ParseContext)" where
  "parse_with isOp k A tgs stls norm D k0 d opts =
     (case addAll k A d (o_from opts) (o_to opts)
             (new_ParseContext A tgs stls norm D k0 opts isOp) of
        Inl e \<Rightarrow> Inl e
      | Inr s \<Rightarrow> Inr (pfinish A s))"

definition parse ::
  "nat \<Rightarrow> api \<Rightarrow> ParseRule list \<Rightarrow> ParseRule list \<Rightarrow> bool \<Rightarrow> dom \<Rightarrow> nat \<Rightarrow> nat \<Rightarrow> ParseOptions \<Rightarrow>
   error + (finished \<times> ParseContext)" where
  "parse = parse_with False"

definition parseSlice ::
  "nat \<Rightarrow> api \<Rightarrow> ParseRule list \<Rightarrow> ParseRule list \<Rightarrow> bool \<Rightarrow> dom \<Rightarrow> nat \<Rightarrow> nat \<Rightarrow> ParseOptions \<Rightarrow>
   error + (finished \<times> ParseContext)" where
  "parseSlice = parse_with True"

subsection \<open>The parser object\<close>

text \<open>
  The constructor of \<^verbatim>\<open>DOMParser\<close>: the rules with a tag, the other rules with a style,
  and \<^verbatim>\<open>normalizeLists\<close>. \<open>is_list_tag\<close> is \<^verbatim>\<open>/^(ul|ol)\b/.test(tag)\<close>.
\<close>

definition parser_tags :: "ParseRule list \<Rightarrow> ParseRule list" where
  "parser_tags rules = filter (\<lambda>r. truthy (r_tag r)) rules"

definition parser_styles :: "ParseRule list \<Rightarrow> ParseRule list" where
  "parser_styles rules = filter (\<lambda>r. \<not> truthy (r_tag r) \<and> truthy (r_style r)) rules"

definition is_list_tag :: "string \<Rightarrow> bool" where
  "is_list_tag t =
     ((take 2 t = ''ul'' \<or> take 2 t = ''ol'') \<and>
      (length t = 2 \<or> \<not> (is_name_char (t ! 2) \<and> t ! 2 \<noteq> CHR ''-'')))"

fun lists_nest :: "api \<Rightarrow> ParseRule list \<Rightarrow> error + bool" where
  "lists_nest A [] = Inr False"
| "lists_nest A (r # rs) =
     (if \<not> is_list_tag (the (r_tag r)) \<or> \<not> truthy (r_node r) then lists_nest A rs
      else (case map_of (schema_nodes A) (the (r_node r)) of
              None \<Rightarrow> Inl TypeError
            | Some t \<Rightarrow> if matchType A (contentMatch t) t \<noteq> None then Inr True
                        else lists_nest A rs))"

text \<open>
  \<^verbatim>\<open>new DOMParser(schema, rules).parse(dom, options)\<close>; \<open>D\<close> is the store that holds the
  tree, \<open>k0\<close> the first identity it does not use and \<open>k\<close> the bound on the depth of the
  walk.
\<close>

definition DOMParser_parse ::
  "nat \<Rightarrow> api \<Rightarrow> ParseRule list \<Rightarrow> dom \<Rightarrow> nat \<Rightarrow> nat \<Rightarrow> ParseOptions \<Rightarrow>
   error + (finished \<times> ParseContext)" where
  "DOMParser_parse k A rules D k0 d opts =
     (case lists_nest A (parser_tags rules) of
        Inl e \<Rightarrow> Inl e
      | Inr nest \<Rightarrow> parse k A (parser_tags rules) (parser_styles rules) (\<not> nest) D k0 d opts)"

section \<open>An example schema\<close>

text \<open>
  The statements below are about every schema. Their examples use a small one: a document
  of blocks, where a block is a paragraph of text or a block quote of blocks, and the
  marks \<^verbatim>\<open>strong\<close>, \<^verbatim>\<open>em\<close>, \<^verbatim>\<open>link\<close> and \<^verbatim>\<open>size\<close>, allowed in paragraphs; each mark
  type excludes itself and no other type. The automaton has the
  states 0, 1 (a document before and after its first block), 2 (in a paragraph), 3, 4 (a
  block quote before and after its first block) and 5 (a node without content).
\<close>

definition ex_doc :: NodeType where
  "ex_doc = \<lparr>nt_name = ''doc'', nt_groups = [], inlineContent = False, isLeaf = False,
     isInline = False, isTextblock = False, defaultAttrs = Some [], whitespace = ''normal'',
     contentMatch = 0\<rparr>"

definition ex_paragraph :: NodeType where
  "ex_paragraph = \<lparr>nt_name = ''paragraph'', nt_groups = [''block''], inlineContent = True,
     isLeaf = False, isInline = False, isTextblock = True, defaultAttrs = Some [],
     whitespace = ''normal'', contentMatch = 2\<rparr>"

definition ex_blockquote :: NodeType where
  "ex_blockquote = \<lparr>nt_name = ''blockquote'', nt_groups = [''block''], inlineContent = False,
     isLeaf = False, isInline = False, isTextblock = False, defaultAttrs = Some [],
     whitespace = ''normal'', contentMatch = 3\<rparr>"

definition ex_text :: NodeType where
  "ex_text = \<lparr>nt_name = ''text'', nt_groups = [''inline''], inlineContent = False,
     isLeaf = True, isInline = True, isTextblock = False, defaultAttrs = Some [],
     whitespace = ''normal'', contentMatch = 5\<rparr>"

definition ex_is_block :: "NodeType \<Rightarrow> bool" where
  "ex_is_block t = (nt_name t = ''paragraph'' \<or> nt_name t = ''blockquote'')"

definition ex_matchType :: "nat \<Rightarrow> NodeType \<Rightarrow> nat option" where
  "ex_matchType m t =
     (if (m = 0 \<or> m = 1) \<and> ex_is_block t then Some 1
      else if (m = 3 \<or> m = 4) \<and> ex_is_block t then Some 4
      else if m = 2 \<and> nt_name t = ''text'' then Some 2
      else None)"

definition ex_findWrapping :: "nat \<Rightarrow> NodeType \<Rightarrow> NodeType list option" where
  "ex_findWrapping m t =
     (if ex_matchType m t \<noteq> None then Some []
      else if (m = 0 \<or> m = 1 \<or> m = 3 \<or> m = 4) \<and> nt_name t = ''text'' then Some [ex_paragraph]
      else None)"

fun ex_nodeSize :: "node \<Rightarrow> nat" where
  "ex_nodeSize (Node t a c ms txt) =
     (case txt of
        Some v \<Rightarrow> length v
      | None \<Rightarrow> if isLeaf t then 1 else 2 + sum_list (map ex_nodeSize c))"

fun ex_ancestor :: "nat \<Rightarrow> dom \<Rightarrow> nat \<Rightarrow> nat \<Rightarrow> bool" where
  "ex_ancestor 0 D a b = (a = b)"
| "ex_ancestor (Suc k) D a b =
     (a = b \<or> (case D b of
                  None \<Rightarrow> False
                | Some bn \<Rightarrow> (case parentNode bn of
                                None \<Rightarrow> False
                              | Some p \<Rightarrow> ex_ancestor k D a p)))"

definition ex_api :: api where
  "ex_api = \<lparr>
     allowsMarkType = (\<lambda>t m. nt_name t = ''paragraph''),
     matchType = ex_matchType,
     cm_findWrapping = ex_findWrapping,
     fillBefore = (\<lambda>m ns. case ns of
                     [n] \<Rightarrow> if ex_matchType m (n_type n) \<noteq> None then Some [] else None
                   | _ \<Rightarrow> None),
     matchFragment = (\<lambda>m ns. m),
     fillToEnd = (\<lambda>m. if m = 0 \<or> m = 3 then [Node ex_paragraph None [] [] None] else []),
     edges = (\<lambda>m. if m = 0 \<or> m = 1 then [(ex_paragraph, 1), (ex_blockquote, 1)]
                   else if m = 3 \<or> m = 4 then [(ex_paragraph, 4), (ex_blockquote, 4)]
                   else if m = 2 then [(ex_text, 2)] else []),
     cm_bound = 6,
     defaultType = (\<lambda>m. if m = 0 \<or> m = 1 \<or> m = 3 \<or> m = 4 then Some ex_paragraph
                        else if m = 2 then Some ex_text else None),
     contentMatchAt = (\<lambda>n i. case ex_matchType (contentMatch (n_type n)) ex_paragraph of
                               Some m \<Rightarrow> if 0 < i then m else contentMatch (n_type n)
                             | None \<Rightarrow> contentMatch (n_type n)),
     nodeSize = ex_nodeSize,
     schema_nodes = [(''doc'', ex_doc), (''paragraph'', ex_paragraph),
                     (''blockquote'', ex_blockquote), (''text'', ex_text)],
     textType = ex_text,
     topNodeType = ex_doc,
     mark_create = (\<lambda>t a k. if t \<in> set [''strong'', ''em'', ''link'', ''size'']
                             then Some \<lparr>mk_id = (case a of None \<Rightarrow> 0 | Some x \<Rightarrow> k),
                                        mk_type = t,
                                        mk_attrs = (case a of None \<Rightarrow> [] | Some x \<Rightarrow> x),
                                        mk_excluded = [t]\<rparr>
                             else None),
     css_matches = (\<lambda>D d sel. case D d of
                                 None \<Rightarrow> False
                               | Some dn \<Rightarrow> nodeType dn = 1 \<and> toLowerCase (nodeName dn) = sel),
     querySelector = (\<lambda>D d sel. None),
     dom_contains = (\<lambda>D a b. ex_ancestor 16 D a b),
     compareDocumentPosition = (\<lambda>D a b. if a = b then 0
                                          else if ex_ancestor 16 D b a then 10
                                          else if ex_ancestor 16 D a b then 20 else 35)\<rparr>"

text \<open>A frame of the example: the document type, solid, at the start, nothing pending.\<close>

definition ex_frame :: "nat \<Rightarrow> NodeType option \<Rightarrow> 32 word \<Rightarrow> NodeContext" where
  "ex_frame i t opts = new_NodeContext i t None [] [] True None opts"

definition ex_options :: ParseOptions where
  "ex_options = \<lparr>o_preserveWhitespace = None, o_findPositions = None, o_from = None,
     o_to = None, o_topNode = None, o_topMatch = None, o_context = None,
     o_ruleFromNode = None, o_topOpen = False\<rparr>"

definition ex_state :: "NodeContext list \<Rightarrow> bool \<Rightarrow> ParseContext" where
  "ex_state ns isOp = \<lparr>popen = length ns - 1, pfind = None, needsBlock = False, nodes = ns,
     tags = [], styles = [], normalizeLists = True, poptions = ex_options, isOpen = isOp,
     doc = Map.empty, fresh = 100\<rparr>"

section \<open>Basic facts about frames\<close>

lemma wsOptionsFor_no_open_left: "wsOptionsFor t pw base AND OPT_OPEN_LEFT = 0"
  unfolding wsOptionsFor_def OPT_OPEN_LEFT_def OPT_PRESERVE_WS_def OPT_PRESERVE_WS_FULL_def
  by (auto split: option.splits simp: and.assoc)

lemma open_left_nonzero [simp]: "OPT_OPEN_LEFT \<noteq> 0"
  by (simp add: OPT_OPEN_LEFT_def)

lemma or_open_left: "(x OR OPT_OPEN_LEFT) AND OPT_OPEN_LEFT \<noteq> 0"
  unfolding OPT_OPEN_LEFT_def
  by (simp add: bit.conj_disj_distrib2)

lemma applyPending_step_frame [simp]:
  "options (applyPending_step A t m cx) = options cx"
  "content (applyPending_step A t m cx) = content cx"
  "fid (applyPending_step A t m cx) = fid cx"
  "ctype (applyPending_step A t m cx) = ctype cx"
  "solid (applyPending_step A t m cx) = solid cx"
  "cmatch (applyPending_step A t m cx) = cmatch cx"
  "stashMarks (applyPending_step A t m cx) = stashMarks cx"
  by (simp_all add: applyPending_step_def)

lemma fold_applyPending_step_frame:
  "options (fold (applyPending_step A t) ms cx) = options cx \<and>
   content (fold (applyPending_step A t) ms cx) = content cx \<and>
   fid (fold (applyPending_step A t) ms cx) = fid cx \<and>
   ctype (fold (applyPending_step A t) ms cx) = ctype cx \<and>
   solid (fold (applyPending_step A t) ms cx) = solid cx \<and>
   cmatch (fold (applyPending_step A t) ms cx) = cmatch cx \<and>
   stashMarks (fold (applyPending_step A t) ms cx) = stashMarks cx"
  by (induction ms arbitrary: cx) simp_all

lemma applyPending_frame [simp]:
  "options (applyPending A cx t) = options cx"
  "content (applyPending A cx t) = content cx"
  "fid (applyPending A cx t) = fid cx"
  "ctype (applyPending A cx t) = ctype cx"
  "solid (applyPending A cx t) = solid cx"
  "cmatch (applyPending A cx t) = cmatch cx"
  "stashMarks (applyPending A cx t) = stashMarks cx"
  by (simp_all add: applyPending_def fold_applyPending_step_frame)

lemma fold_last_length: "2 \<le> length ns \<Longrightarrow> length (fold_last A oe ns) = length ns - 1"
  by (simp add: fold_last_def Let_def)

lemma closeExtra_n_length:
  "k < length ns \<Longrightarrow> length (closeExtra_n A oe k ns) = length ns - k"
  by (induction k arbitrary: ns) (simp_all add: fold_last_length)

lemma closeExtra_length:
  "popen s < length (nodes s) \<Longrightarrow> length (nodes (closeExtra A oe s)) = Suc (popen s)"
  by (simp add: closeExtra_def closeExtra_n_length)

lemma closeExtra_popen [simp]: "popen (closeExtra A oe s) = popen s"
  by (simp add: closeExtra_def)

section \<open>Open-left when a frame is opened (claim C8)\<close>

text \<open>
  Claim C8 says that a frame opened under a parent never carries the open-left option when
  it takes its whitespace options by inheritance. \<^verbatim>\<open>wsOptionsFor\<close> does clear the bit, but
  \<^verbatim>\<open>enterInner\<close> then sets it again when the parent has it and has no content yet. Here a
  paragraph is opened in the empty root frame of a slice parse, no whitespace option
  given: the new frame has the open-left bit.
\<close>

theorem open_left_inherited_counterexample:
  "options (top (enterInner ex_api ex_paragraph None False None
                   (ex_state [ex_frame 0 None OPT_OPEN_LEFT] True))) AND OPT_OPEN_LEFT \<noteq> 0"
  by (simp add: enterInner_def Let_def top_def set_top_def new_NodeContext_def ex_state_def
        ex_frame_def closeExtra_def applyPending_def wsOptionsFor_def ex_paragraph_def
        OPT_OPEN_LEFT_def)

text \<open>
  Claim C8, amended: the options that \<^verbatim>\<open>wsOptionsFor\<close> computes never contain open-left
  (on inheritance the parent's bit is cleared), and the frame that \<^verbatim>\<open>enterInner\<close> pushes
  has the open-left bit exactly when the frame it is opened under has the bit and an
  empty content list. The parent is the top frame after \<^verbatim>\<open>closeExtra\<close>.
\<close>

theorem enterInner_open_left:
  assumes "popen s < length (nodes s)"
  shows "wsOptionsFor (Some t) pw (options (top (closeExtra A False s))) AND OPT_OPEN_LEFT = 0 \<and>
         (options (top (enterInner A t a sol pw s)) AND OPT_OPEN_LEFT \<noteq> 0 \<longleftrightarrow>
          options (top (closeExtra A False s)) AND OPT_OPEN_LEFT \<noteq> 0 \<and>
          content (top (closeExtra A False s)) = [])"
proof -
  have len: "length (nodes (closeExtra A False s)) = Suc (popen s)"
    using assms by (rule closeExtra_length)
  show ?thesis
    unfolding enterInner_def Let_def top_def set_top_def new_NodeContext_def
    using len by (simp add: nth_append wsOptionsFor_no_open_left or_open_left)
qed

theorem enterInner_open_left_witness:
  "popen (ex_state [ex_frame 0 (Some ex_doc) 0] False)
     < length (nodes (ex_state [ex_frame 0 (Some ex_doc) 0] False)) \<and>
   options (top (enterInner ex_api ex_paragraph None False None
                   (ex_state [ex_frame 0 (Some ex_doc) 0] False))) AND OPT_OPEN_LEFT = 0"
  using enterInner_open_left [of "ex_state [ex_frame 0 (Some ex_doc) 0] False"
          ex_paragraph None ex_api None False]
  by (simp add: ex_state_def ex_frame_def new_NodeContext_def top_def closeExtra_def)

section \<open>More of the example: a rule and input nodes\<close>

text \<open>The rule without any property, an element and a text node.\<close>

definition ex_rule :: ParseRule where
  "ex_rule = \<lparr>r_tag = None, r_namespace = None, r_style = None, r_priority = None,
     r_consuming = None, r_context = None, r_node = None, r_mark = None, r_clearMark = None,
     r_ignore = False, r_closeParent = False, r_skip = SkipFalse, r_attrs = None,
     r_getAttrs = None, r_contentElement = None, r_getContent = None,
     r_preserveWhitespace = None\<rparr>"

definition ex_element :: "string \<Rightarrow> nat list \<Rightarrow> nat option \<Rightarrow> DOMNode" where
  "ex_element name cs p = \<lparr>nodeType = 1, nodeName = name, nodeValue = [], styleAttr = None,
     namespaceURI = None, childNodes = cs, parentNode = p\<rparr>"

definition ex_textnode :: "string \<Rightarrow> nat option \<Rightarrow> DOMNode" where
  "ex_textnode v p = \<lparr>nodeType = 3, nodeName = ''#text'', nodeValue = v, styleAttr = None,
     namespaceURI = None, childNodes = [], parentNode = p\<rparr>"

lemma lower_DIV [simp]: "toLowerCase ''DIV'' = ''div''"
  by code_simp

section \<open>What a match writes to the rule store (claim C3)\<close>

lemma matchTag_loop_result:
  "matchTag_loop A s d rules i = Some (j, r') \<Longrightarrow>
     i \<le> j \<and> j < i + length rules \<and>
     (case r_getAttrs (rules ! (j - i)) of
        None \<Rightarrow> r' = rules ! (j - i)
      | Some g \<Rightarrow> r' = assign_attrs (g (doc s) (ArgElement d)) (rules ! (j - i)))"
proof (induction rules arbitrary: i)
  case Nil
  then show ?case by simp
next
  case (Cons rule rest)
  show ?case
  proof (cases "tag_applies A s d rule \<and>
      (case r_getAttrs rule of None \<Rightarrow> True | Some g \<Rightarrow> g (doc s) (ArgElement d) \<noteq> Reject)")
    case True
    with Cons.prems have "j = i" and "r' = (case r_getAttrs rule of None \<Rightarrow> rule
        | Some g \<Rightarrow> assign_attrs (g (doc s) (ArgElement d)) rule)"
      by (auto split: option.splits attrs_result.splits)
    then show ?thesis by (simp split: option.splits)
  next
    case False
    with Cons.prems have "matchTag_loop A s d rest (Suc i) = Some (j, r')"
      by (auto split: option.splits attrs_result.splits if_splits)
    from Cons.IH [OF this]
    have ih: "Suc i \<le> j" "j < Suc i + length rest"
      "(case r_getAttrs (rest ! (j - Suc i)) of
          None \<Rightarrow> r' = rest ! (j - Suc i)
        | Some g \<Rightarrow> r' = assign_attrs (g (doc s) (ArgElement d)) (rest ! (j - Suc i)))"
      by simp_all
    from ih(1) have eq: "(rule # rest) ! (j - i) = rest ! (j - Suc i)"
      by (simp add: Suc_diff_le [symmetric] del: diff_Suc)
    show ?thesis unfolding eq using ih by simp
  qed
qed

lemma matchStyle_loop_result:
  "matchStyle_loop s prop val rules i = Some (j, r') \<Longrightarrow>
     i \<le> j \<and> j < i + length rules \<and>
     (case r_getAttrs (rules ! (j - i)) of
        None \<Rightarrow> r' = rules ! (j - i)
      | Some g \<Rightarrow> r' = assign_attrs (g (doc s) (ArgString val)) (rules ! (j - i)))"
proof (induction rules arbitrary: i)
  case Nil
  then show ?case by simp
next
  case (Cons rule rest)
  show ?case
  proof (cases "style_applies s prop val rule \<and>
      (case r_getAttrs rule of None \<Rightarrow> True | Some g \<Rightarrow> g (doc s) (ArgString val) \<noteq> Reject)")
    case True
    with Cons.prems have "j = i" and "r' = (case r_getAttrs rule of None \<Rightarrow> rule
        | Some g \<Rightarrow> assign_attrs (g (doc s) (ArgString val)) rule)"
      by (auto split: option.splits attrs_result.splits)
    then show ?thesis by (simp split: option.splits)
  next
    case False
    with Cons.prems have "matchStyle_loop s prop val rest (Suc i) = Some (j, r')"
      by (auto split: option.splits attrs_result.splits if_splits)
    from Cons.IH [OF this]
    have ih: "Suc i \<le> j" "j < Suc i + length rest"
      "(case r_getAttrs (rest ! (j - Suc i)) of
          None \<Rightarrow> r' = rest ! (j - Suc i)
        | Some g \<Rightarrow> r' = assign_attrs (g (doc s) (ArgString val)) (rest ! (j - Suc i)))"
      by simp_all
    from ih(1) have eq: "(rule # rest) ! (j - i) = rest ! (j - Suc i)"
      by (simp add: Suc_diff_le [symmetric] del: diff_Suc)
    show ?thesis unfolding eq using ih by simp
  qed
qed

lemma matchTag_effect:
  "(case matchTag A d after s of
      (None, s') \<Rightarrow> s' = s
    | (Some i, s') \<Rightarrow>
        i < length (tags s) \<and>
        (case r_getAttrs (tags s ! i) of
           None \<Rightarrow> s' = s
         | Some g \<Rightarrow>
             s' = s\<lparr>tags := (tags s)[i := (tags s ! i)\<lparr>r_attrs :=
                    (case g (doc s) (ArgElement d) of GotAttrs a \<Rightarrow> Some a | _ \<Rightarrow> None)\<rparr>]\<rparr>))"
proof -
  define start where "start = (case after of Some a \<Rightarrow> a + 1 | None \<Rightarrow> (0::nat))"
  show ?thesis
  proof (cases "matchTag_loop A s d (drop start (tags s)) start")
    case None
    then show ?thesis by (simp add: matchTag_def start_def [symmetric])
  next
    case (Some p)
    obtain j r' where p: "p = (j, r')" by (cases p)
    from matchTag_loop_result [OF Some [unfolded p]]
    have b: "start \<le> j" "j < length (tags s)"
      and r: "(case r_getAttrs (tags s ! j) of
                None \<Rightarrow> r' = tags s ! j
              | Some g \<Rightarrow> r' = assign_attrs (g (doc s) (ArgElement d)) (tags s ! j))"
      by (auto split: option.splits)
    show ?thesis
      using Some p b r
      by (auto simp: matchTag_def start_def [symmetric] assign_attrs_def split: option.splits)
  qed
qed

lemma matchStyle_effect:
  "(case matchStyle prop val after s of
      (None, s') \<Rightarrow> s' = s
    | (Some i, s') \<Rightarrow>
        i < length (styles s) \<and>
        (case r_getAttrs (styles s ! i) of
           None \<Rightarrow> s' = s
         | Some g \<Rightarrow>
             s' = s\<lparr>styles := (styles s)[i := (styles s ! i)\<lparr>r_attrs :=
                    (case g (doc s) (ArgString val) of GotAttrs a \<Rightarrow> Some a | _ \<Rightarrow> None)\<rparr>]\<rparr>))"
proof -
  define start where "start = (case after of Some a \<Rightarrow> a + 1 | None \<Rightarrow> (0::nat))"
  show ?thesis
  proof (cases "matchStyle_loop s prop val (drop start (styles s)) start")
    case None
    then show ?thesis by (simp add: matchStyle_def start_def [symmetric])
  next
    case (Some p)
    obtain j r' where p: "p = (j, r')" by (cases p)
    from matchStyle_loop_result [OF Some [unfolded p]]
    have b: "start \<le> j" "j < length (styles s)"
      and r: "(case r_getAttrs (styles s ! j) of
                None \<Rightarrow> r' = styles s ! j
              | Some g \<Rightarrow> r' = assign_attrs (g (doc s) (ArgString val)) (styles s ! j))"
      by (auto split: option.splits)
    show ?thesis
      using Some p b r
      by (auto simp: matchStyle_def start_def [symmetric] assign_attrs_def split: option.splits)
  qed
qed

text \<open>
  Claim C3 says that \<^verbatim>\<open>matchTag\<close> and \<^verbatim>\<open>matchStyle\<close> leave every field of every rule
  unchanged and never write the result of \<^verbatim>\<open>getAttrs\<close> back. The source assigns it to
  \<^verbatim>\<open>rule.attrs\<close>. Here the only rule matches \<^verbatim>\<open>div\<close> elements and computes the attributes
  \<^verbatim>\<open>{id: "x"}\<close>: its \<^verbatim>\<open>attrs\<close> is absent before the match of a \<^verbatim>\<open>div\<close> and set after it.
\<close>

definition ex_attr_rule :: ParseRule where
  "ex_attr_rule = ex_rule\<lparr>r_tag := Some ''div'', r_node := Some ''paragraph'',
     r_getAttrs := Some (\<lambda>D a. GotAttrs [(''id'', ''x'')])\<rparr>"

definition ex_match_state :: ParseContext where
  "ex_match_state = (ex_state [ex_frame 0 (Some ex_doc) 0] False)
     \<lparr>tags := [ex_attr_rule], doc := [1 \<mapsto> ex_element ''DIV'' [] None]\<rparr>"

theorem rule_store_written_counterexample:
  "r_attrs (tags ex_match_state ! 0) = None \<and>
   r_attrs (tags (snd (matchTag ex_api 1 None ex_match_state)) ! 0) = Some [(''id'', ''x'')]"
  by code_simp

text \<open>
  Claim C3, amended: a match changes the rule store in one place at most. When the rule
  that \<^verbatim>\<open>matchTag\<close> or \<^verbatim>\<open>matchStyle\<close> returns has a \<^verbatim>\<open>getAttrs\<close> function, the \<^verbatim>\<open>attrs\<close>
  field of that rule is overwritten with the function's result (absent when the result
  is \<^verbatim>\<open>null\<close>); its other fields and all other rules stay as they are. When no rule is
  returned, or the returned rule has no \<^verbatim>\<open>getAttrs\<close>, the whole state is unchanged.
\<close>

theorem rule_store_effect:
  "(case matchTag A d after s of
      (None, s') \<Rightarrow> s' = s
    | (Some i, s') \<Rightarrow>
        i < length (tags s) \<and>
        (case r_getAttrs (tags s ! i) of
           None \<Rightarrow> s' = s
         | Some g \<Rightarrow>
             s' = s\<lparr>tags := (tags s)[i := (tags s ! i)\<lparr>r_attrs :=
                    (case g (doc s) (ArgElement d) of GotAttrs a \<Rightarrow> Some a | _ \<Rightarrow> None)\<rparr>]\<rparr>)) \<and>
   (case matchStyle prop val after' s of
      (None, s') \<Rightarrow> s' = s
    | (Some i, s') \<Rightarrow>
        i < length (styles s) \<and>
        (case r_getAttrs (styles s ! i) of
           None \<Rightarrow> s' = s
         | Some g \<Rightarrow>
             s' = s\<lparr>styles := (styles s)[i := (styles s ! i)\<lparr>r_attrs :=
                    (case g (doc s) (ArgString val) of GotAttrs a \<Rightarrow> Some a | _ \<Rightarrow> None)\<rparr>]\<rparr>))"
  by (rule conjI [OF matchTag_effect matchStyle_effect])

theorem rule_store_effect_witness:
  "fst (matchTag ex_api 1 None ex_match_state) = Some 0 \<and>
   tags (snd (matchTag ex_api 1 None ex_match_state)) =
     [ex_attr_rule\<lparr>r_attrs := Some [(''id'', ''x'')]\<rparr>]"
proof -
  have m: "fst (matchTag ex_api 1 None ex_match_state) = Some 0"
    by code_simp
  then obtain s' where s': "matchTag ex_api 1 None ex_match_state = (Some 0, s')"
    by (cases "matchTag ex_api 1 None ex_match_state") simp
  from rule_store_effect [where A = ex_api and d = 1 and after = None and s = ex_match_state]
  show ?thesis
    unfolding s' by (simp add: ex_match_state_def ex_attr_rule_def ex_state_def)
qed

section \<open>The order of the rules of a schema (claim C4)\<close>

text \<open>
  The rules as declared: for each type, in order, the completed copies of its rules.
  \<open>spec_schemaRules\<close> follows the words of the spec: the declared rules, marks before
  nodes, sorted by descending priority with a stable sort.
\<close>

definition declared_rules ::
  "(string \<Rightarrow> ParseRule \<Rightarrow> ParseRule) \<Rightarrow> declared \<Rightarrow> ParseRule list" where
  "declared_rules complete ds =
     concat (map (\<lambda>d. case snd d of None \<Rightarrow> [] | Some rules \<Rightarrow> map (complete (fst d)) rules) ds)"

definition spec_schemaRules :: "declared \<Rightarrow> declared \<Rightarrow> ParseRule list" where
  "spec_schemaRules schema_marks schema_nodes_decl =
     sort_key (\<lambda>r. - rule_priority r)
       (declared_rules mark_rule schema_marks @ declared_rules node_rule schema_nodes_decl)"

lemma fold_insert_declared:
  "fold (insert_declared c) ds acc = fold insert_rule (declared_rules c ds) acc"
proof (induction ds arbitrary: acc)
  case Nil
  then show ?case by (simp add: declared_rules_def)
next
  case (Cons d ds)
  have "insert_declared c d acc =
        fold insert_rule (case snd d of None \<Rightarrow> [] | Some rules \<Rightarrow> map (c (fst d)) rules) acc"
    by (simp add: insert_declared_def fold_map comp_def split: option.splits)
  with Cons.IH show ?case
    by (simp add: declared_rules_def)
qed

lemma schemaRules_fold:
  "schemaRules ms ns =
     fold insert_rule (declared_rules mark_rule ms @ declared_rules node_rule ns) []"
  by (simp add: schemaRules_def fold_insert_declared)

abbreviation desc :: "ParseRule list \<Rightarrow> bool" where
  "desc rs \<equiv> sorted (map (\<lambda>r. - rule_priority r) rs)"

lemma insert_rule_mset: "mset (insert_rule r rs) = add_mset r (mset rs)"
  by (induction rs) simp_all

lemma insert_rule_set: "set (insert_rule r rs) = insert r (set rs)"
  by (induction rs) auto

lemma insert_rule_sorted: "desc rs \<Longrightarrow> desc (insert_rule r rs)"
  by (induction rs) (auto simp: insert_rule_set)

lemma insert_rule_filter:
  "desc rs \<Longrightarrow>
   filter (\<lambda>x. rule_priority x = p) (insert_rule r rs) =
   filter (\<lambda>x. rule_priority x = p) rs @ (if rule_priority r = p then [r] else [])"
proof (induction rs)
  case Nil
  then show ?case by simp
next
  case (Cons n rest)
  show ?case
  proof (cases "rule_priority n < rule_priority r")
    case True
    with Cons.prems have "\<forall>x \<in> set (n # rest). rule_priority x < rule_priority r"
      by auto
    then have "rule_priority r = p \<Longrightarrow> filter (\<lambda>x. rule_priority x = p) (n # rest) = []"
      by (auto simp: filter_empty_conv)
    with True show ?thesis by auto
  next
    case False
    with Cons show ?thesis by simp
  qed
qed

lemma fold_insert_rule:
  "desc acc \<Longrightarrow>
   desc (fold insert_rule xs acc) \<and>
   mset (fold insert_rule xs acc) = mset acc + mset xs \<and>
   (\<forall>p. filter (\<lambda>x. rule_priority x = p) (fold insert_rule xs acc) =
        filter (\<lambda>x. rule_priority x = p) acc @ filter (\<lambda>x. rule_priority x = p) xs)"
proof (induction xs arbitrary: acc)
  case Nil
  then show ?case by simp
next
  case (Cons x xs)
  from Cons.prems have s: "desc (insert_rule x acc)" by (rule insert_rule_sorted)
  from Cons.IH [OF s] Cons.prems show ?case
    by (simp add: insert_rule_mset insert_rule_filter)
qed

lemma schemaRules_stable_sort: "schemaRules ms ns = spec_schemaRules ms ns"
proof -
  let ?xs = "declared_rules mark_rule ms @ declared_rules node_rule ns"
  have f: "desc (fold insert_rule ?xs [])"
    "mset (fold insert_rule ?xs []) = mset ?xs"
    "\<And>p. filter (\<lambda>x. rule_priority x = p) (fold insert_rule ?xs []) =
          filter (\<lambda>x. rule_priority x = p) ?xs"
    using fold_insert_rule [of "[]" ?xs] by simp_all
  have "sort_key (\<lambda>r. - rule_priority r) ?xs = fold insert_rule ?xs []"
  proof (rule properties_for_sort_key)
    show "mset (fold insert_rule ?xs []) = mset ?xs" by (rule f(2))
    show "desc (fold insert_rule ?xs [])" by (rule f(1))
    fix k
    have "(\<lambda>x. - rule_priority k = - rule_priority x) = (\<lambda>x. rule_priority x = rule_priority k)"
      by auto
    then show "filter (\<lambda>x. - rule_priority k = - rule_priority x) (fold insert_rule ?xs []) =
          filter (\<lambda>x. - rule_priority k = - rule_priority x) ?xs"
      using f(3) [of "rule_priority k"] by simp
  qed
  then show ?thesis by (simp add: schemaRules_fold spec_schemaRules_def)
qed

lemma desc_nth: "desc rs \<Longrightarrow> i < j \<Longrightarrow> j < length rs \<Longrightarrow> rule_priority (rs ! j) \<le> rule_priority (rs ! i)"
  using sorted_nth_mono [of "map (\<lambda>r. - rule_priority r) rs" i j] by simp

lemma desc_filter: "desc rs \<Longrightarrow> desc (filter P rs)"
  by (induction rs) auto

lemma rule_priority_completed [simp]:
  "rule_priority (mark_rule n r) = rule_priority r"
  "rule_priority (node_rule n r) = rule_priority r"
  by (simp_all add: mark_rule_def node_rule_def rule_priority_def)

text \<open>
  Claim C4: the rule list built from a schema is the stable sort by descending priority
  (a missing priority counting as 50) of the declared rules, marks before nodes: it is
  sorted, and the rules of any one priority stand in declaration order, those of marks
  first. So in the list of tag rules a rule of priority 70 stands before a rule of
  priority 30, and \<^verbatim>\<open>matchTag\<close>, which tries the rules in the order of the list, tries
  it first.
\<close>

theorem schemaRules_ordering:
  "schemaRules ms ns = spec_schemaRules ms ns \<and>
   sorted (map (\<lambda>r. - rule_priority r) (schemaRules ms ns)) \<and>
   (\<forall>p. filter (\<lambda>r. rule_priority r = p) (schemaRules ms ns) =
        filter (\<lambda>r. rule_priority r = p) (declared_rules mark_rule ms) @
        filter (\<lambda>r. rule_priority r = p) (declared_rules node_rule ns)) \<and>
   (\<forall>i j. i < length (parser_tags (schemaRules ms ns)) \<and>
          j < length (parser_tags (schemaRules ms ns)) \<and>
          rule_priority (parser_tags (schemaRules ms ns) ! i) = 70 \<and>
          rule_priority (parser_tags (schemaRules ms ns) ! j) = 30 \<longrightarrow> i < j)"
proof -
  let ?xs = "declared_rules mark_rule ms @ declared_rules node_rule ns"
  have f: "desc (schemaRules ms ns)"
    "\<And>p. filter (\<lambda>x. rule_priority x = p) (schemaRules ms ns) =
          filter (\<lambda>x. rule_priority x = p) ?xs"
    using fold_insert_rule [of "[]" ?xs] by (simp_all add: schemaRules_fold)
  have d: "desc (parser_tags (schemaRules ms ns))"
    unfolding parser_tags_def using f(1) by (rule desc_filter)
  have "i < j" if "i < length (parser_tags (schemaRules ms ns))"
    "j < length (parser_tags (schemaRules ms ns))"
    "rule_priority (parser_tags (schemaRules ms ns) ! i) = 70"
    "rule_priority (parser_tags (schemaRules ms ns) ! j) = 30" for i j
  proof (rule ccontr)
    assume "\<not> i < j"
    with that have "j < i" by (cases "i = j") auto
    from desc_nth [OF d this that(1)] that show False by simp
  qed
  with f schemaRules_stable_sort [of ms ns] show ?thesis by auto
qed

text \<open>
  An example: the mark \<^verbatim>\<open>strong\<close> declares a rule for \<^verbatim>\<open>b\<close>, the node
  \<^verbatim>\<open>paragraph\<close> a rule for \<^verbatim>\<open>p\<close> of priority 30 and then one of priority 70.
\<close>

definition ex_marks_decl :: declared where
  "ex_marks_decl = [(''strong'', Some [ex_rule\<lparr>r_tag := Some ''b''\<rparr>]), (''em'', None)]"

definition ex_nodes_decl :: declared where
  "ex_nodes_decl =
     [(''paragraph'', Some [ex_rule\<lparr>r_tag := Some ''p'', r_priority := Some 30\<rparr>,
                           ex_rule\<lparr>r_tag := Some ''p'', r_priority := Some 70\<rparr>])]"

theorem schemaRules_ordering_witness:
  "map rule_priority (parser_tags (schemaRules ex_marks_decl ex_nodes_decl)) = [70, 50, 30] \<and>
   map r_mark (schemaRules ex_marks_decl ex_nodes_decl) = [None, Some ''strong'', None] \<and>
   (0::nat) < 2"
proof -
  have e: "map rule_priority (parser_tags (schemaRules ex_marks_decl ex_nodes_decl)) = [70, 50, 30]"
    "map r_mark (schemaRules ex_marks_decl ex_nodes_decl) = [None, Some ''strong'', None]"
    by code_simp+
  from schemaRules_ordering [of ex_marks_decl ex_nodes_decl]
  have "0 < length (parser_tags (schemaRules ex_marks_decl ex_nodes_decl)) \<and>
        2 < length (parser_tags (schemaRules ex_marks_decl ex_nodes_decl)) \<and>
        rule_priority (parser_tags (schemaRules ex_marks_decl ex_nodes_decl) ! 0) = 70 \<and>
        rule_priority (parser_tags (schemaRules ex_marks_decl ex_nodes_decl) ! 2) = 30
        \<longrightarrow> (0::nat) < 2"
    by blast
  with e show ?thesis
    by (metis length_map nth_map list.size(3,4) nth_Cons_0 zero_less_numeral)
qed

section \<open>The context path \<^verbatim>\<open>blockquote/paragraph/\<close> (claim C7)\<close>

text \<open>
  \<open>has_name p t\<close>: the test of a path segment against a type (its name is the segment, or
  its groups contain the segment); it fails when there is no type.
\<close>

definition has_name :: "string \<Rightarrow> NodeType option \<Rightarrow> bool" where
  "has_name p t = (case t of None \<Rightarrow> False | Some ty \<Rightarrow> nt_name ty = p \<or> p \<in> set (nt_groups ty))"

lemma split_bq: "split_on (CHR ''/'') ''blockquote/paragraph/'' = [''blockquote'', ''paragraph'', []]"
  by code_simp

lemma no_pipe: "CHR ''|'' \<notin> set ''blockquote/paragraph/''"
  by simp

lemma matches_bq_general:
  "matchesContext s ''blockquote/paragraph/'' \<longleftrightarrow>
     has_name ''paragraph'' (context_type s (int (popen s))) \<and>
     has_name ''blockquote'' (context_type s (int (popen s) - 1))"
proof -
  have "matchesContext s ''blockquote/paragraph/'' =
        match_parts s [''blockquote'', ''paragraph'', []] (Suc (Suc 0)) (int (popen s))"
    unfolding matchesContext_def matchesContext_path_def split_bq Let_def
    using no_pipe by (simp add: numeral_2_eq_2)
  then show ?thesis
    by (auto simp: has_name_def split: option.splits)
qed

lemma context_type_no_context:
  "o_context (poptions s) = None \<Longrightarrow>
   context_type s d = (if 0 < d \<or> (d = 0 \<and> \<not> isOpen s) then ctype (nodes s ! nat d) else None)"
  by (simp add: context_type_def useRoot_def)

lemma matches_bq_frames:
  assumes "o_context (poptions s) = None"
  shows "matchesContext s ''blockquote/paragraph/'' \<longleftrightarrow>
     1 \<le> popen s \<and>
     has_name ''paragraph'' (ctype (nodes s ! popen s)) \<and>
     has_name ''blockquote'' (ctype (nodes s ! (popen s - 1))) \<and>
     (2 \<le> popen s \<or> \<not> isOpen s)"
proof -
  have a: "context_type s (int (popen s)) =
           (if 0 < popen s \<or> \<not> isOpen s then ctype (nodes s ! popen s) else None)"
    by (auto simp: context_type_no_context [OF assms])
  have n: "nat (int (popen s) - 1) = popen s - 1"
    by simp
  have b: "context_type s (int (popen s) - 1) =
           (if 2 \<le> popen s \<or> (popen s = 1 \<and> \<not> isOpen s)
            then ctype (nodes s ! (popen s - 1)) else None)"
    unfolding context_type_no_context [OF assms] n by auto
  show ?thesis
    unfolding matches_bq_general a b by (auto simp: has_name_def)
qed

text \<open>
  Claim C7 says that a rule with the context \<^verbatim>\<open>"blockquote/paragraph/"\<close> matches exactly
  when the innermost open frame is a paragraph whose parent frame is a block quote, and
  never when the innermost open frame is the root. Two inputs show that the frames alone
  do not decide it. In the first a slice is parsed with an external context that lies in
  a paragraph in a block quote: the only frame is the root, it has no type, and the rule
  matches. In the second a slice is parsed into a block quote as top node, and a
  paragraph is open in it: the rule does not match, because the root frame of a slice
  parse is not counted.
\<close>

definition ex_context :: ResolvedPos where
  "ex_context = \<lparr>rp_depth = 2,
     rp_nodes = [Node ex_doc None [] [] None, Node ex_blockquote None [] [] None,
                 Node ex_paragraph None [] [] None],
     rp_indexAfter = [0, 0, 0]\<rparr>"

definition ex_slice_in_context :: ParseContext where
  "ex_slice_in_context = (ex_state [ex_frame 0 None OPT_OPEN_LEFT] True)
     \<lparr>poptions := ex_options\<lparr>o_context := Some ex_context\<rparr>\<rparr>"

definition ex_slice_in_blockquote :: ParseContext where
  "ex_slice_in_blockquote =
     ex_state [ex_frame 0 (Some ex_blockquote) OPT_OPEN_LEFT, ex_frame 1 (Some ex_paragraph) 0] True"

theorem context_path_counterexample:
  "(popen ex_slice_in_context = 0 \<and> ctype (nodes ex_slice_in_context ! 0) = None \<and>
    matchesContext ex_slice_in_context ''blockquote/paragraph/'') \<and>
   (popen ex_slice_in_blockquote = 1 \<and>
    ctype (nodes ex_slice_in_blockquote ! 1) = Some ex_paragraph \<and>
    ctype (nodes ex_slice_in_blockquote ! 0) = Some ex_blockquote \<and>
    \<not> matchesContext ex_slice_in_blockquote ''blockquote/paragraph/'')"
  by code_simp

text \<open>
  Claim C7, amended. The rule matches exactly when the type found at the depth of the
  innermost open frame has the name or group \<^verbatim>\<open>paragraph\<close> and the type found one level
  further out has the name or group \<^verbatim>\<open>blockquote\<close>; \<open>context_type\<close> takes these types
  from the frames above the root, from the root frame unless the parse is a slice parse
  or the external context does not fit it, and from the external context beyond that.
  When no external context is given this means: the innermost open frame is not the
  root, its type is a paragraph, the type of its parent frame is a block quote, and the
  parent frame is not the root of a slice parse. In particular the rule then does not
  match while the innermost open frame is the root.
\<close>

theorem context_path_match:
  "(matchesContext s ''blockquote/paragraph/'' \<longleftrightarrow>
      has_name ''paragraph'' (context_type s (int (popen s))) \<and>
      has_name ''blockquote'' (context_type s (int (popen s) - 1))) \<and>
   (o_context (poptions s) = None \<longrightarrow>
      (matchesContext s ''blockquote/paragraph/'' \<longleftrightarrow>
         1 \<le> popen s \<and>
         has_name ''paragraph'' (ctype (nodes s ! popen s)) \<and>
         has_name ''blockquote'' (ctype (nodes s ! (popen s - 1))) \<and>
         (2 \<le> popen s \<or> \<not> isOpen s)) \<and>
      (popen s = 0 \<longrightarrow> \<not> matchesContext s ''blockquote/paragraph/''))"
  using matches_bq_general [of s] matches_bq_frames [of s] by auto

text \<open>An example: a paragraph open in a block quote open in the document.\<close>

definition ex_in_quote :: ParseContext where
  "ex_in_quote =
     ex_state [ex_frame 0 (Some ex_doc) 0, ex_frame 1 (Some ex_blockquote) 0,
               ex_frame 2 (Some ex_paragraph) 0] False"

theorem context_path_match_witness:
  "o_context (poptions ex_in_quote) = None \<and> popen ex_in_quote = 2 \<and>
   matchesContext ex_in_quote ''blockquote/paragraph/''"
proof -
  have e: "o_context (poptions ex_in_quote) = None" "popen ex_in_quote = 2"
    "has_name ''paragraph'' (ctype (nodes ex_in_quote ! popen ex_in_quote))"
    "has_name ''blockquote'' (ctype (nodes ex_in_quote ! (popen ex_in_quote - 1)))"
    "\<not> isOpen ex_in_quote"
    by code_simp+
  from context_path_match [of ex_in_quote] e(1)
  have "matchesContext ex_in_quote ''blockquote/paragraph/'' \<longleftrightarrow>
         1 \<le> popen ex_in_quote \<and>
         has_name ''paragraph'' (ctype (nodes ex_in_quote ! popen ex_in_quote)) \<and>
         has_name ''blockquote'' (ctype (nodes ex_in_quote ! (popen ex_in_quote - 1))) \<and>
         (2 \<le> popen ex_in_quote \<or> \<not> isOpen ex_in_quote)"
    by blast
  with e show ?thesis by simp
qed

section \<open>The placement search (claim C5)\<close>

text \<open>
  The words of the spec for \<^verbatim>\<open>findPlace\<close>, as definitions. \<open>route_at A n cx\<close> is the
  wrapping route that the frame \<open>cx\<close> computes for the node \<open>n\<close>. \<open>scan_window ns k\<close> lists
  the depths from \<open>k\<close> outward, up to and including the first solid frame.
  \<open>shortest_first w ds best\<close> goes through the depths \<open>ds\<close> and keeps the shortest route
  found so far with its depth, a later route replacing it only when it is strictly
  shorter.
\<close>

definition route_at :: "api \<Rightarrow> node \<Rightarrow> NodeContext \<Rightarrow> NodeType list option" where
  "route_at A n cx = fst (findWrapping A cx n)"

fun scan_window :: "NodeContext list \<Rightarrow> nat \<Rightarrow> nat list" where
  "scan_window ns 0 = [0]"
| "scan_window ns (Suc d) = Suc d # (if solid (ns ! Suc d) then [] else scan_window ns d)"

fun shortest_first ::
  "(nat \<Rightarrow> NodeType list option) \<Rightarrow> nat list \<Rightarrow> (NodeType list \<times> nat) option \<Rightarrow>
   (NodeType list \<times> nat) option" where
  "shortest_first w [] best = best"
| "shortest_first w (d # ds) best =
     (case w d of
        None \<Rightarrow> shortest_first w ds best
      | Some r \<Rightarrow>
          if (case best of None \<Rightarrow> True | Some (r0, d0) \<Rightarrow> length r < length r0)
          then shortest_first w ds (Some (r, d))
          else shortest_first w ds best)"

lemma findWrapping_frame [simp]:
  "fid (snd (findWrapping A cx n)) = fid cx"
  "solid (snd (findWrapping A cx n)) = solid cx"
  "ctype (snd (findWrapping A cx n)) = ctype cx"
  "content (snd (findWrapping A cx n)) = content cx"
  "options (snd (findWrapping A cx n)) = options cx"
  "pendingMarks (snd (findWrapping A cx n)) = pendingMarks cx"
  "activeMarks (snd (findWrapping A cx n)) = activeMarks cx"
  "stashMarks (snd (findWrapping A cx n)) = stashMarks cx"
  "marks (snd (findWrapping A cx n)) = marks cx"
  "cattrs (snd (findWrapping A cx n)) = cattrs cx"
  by (simp_all add: findWrapping_def Let_def split: option.splits)

lemma shortest_first_empty: "shortest_first w ds (Some ([], d)) = Some ([], d)"
  by (induction ds) (simp_all split: option.splits)

lemma shortest_first_cong:
  "(\<And>d. d \<in> set ds \<Longrightarrow> w d = w' d) \<Longrightarrow> shortest_first w ds b = shortest_first w' ds b"
  by (induction ds arbitrary: b) (simp_all split: option.splits)

lemma scan_window_le: "d \<in> set (scan_window ns k) \<Longrightarrow> d \<le> k"
  by (induction k) (auto split: if_splits)

lemma scan_window_cong:
  "(\<And>d. d \<le> k \<Longrightarrow> solid (ns' ! d) = solid (ns ! d)) \<Longrightarrow> scan_window ns' k = scan_window ns k"
  by (induction k) simp_all

definition with_fid :: "NodeContext list \<Rightarrow> (NodeType list \<times> nat) option \<Rightarrow> (NodeType list \<times> nat) option" where
  "with_fid ns b = map_option (\<lambda>(r, d). (r, fid (ns ! d))) b"

lemma with_fid_Some [simp]: "with_fid ns (Some (r, d)) = Some (r, fid (ns ! d))"
  by (simp add: with_fid_def)

lemma scan_step_unfold:
  "findPlace_scan A n depth route ns =
     (let found = route_at A n (ns ! depth);
          cx = snd (findWrapping A (ns ! depth) n);
          ns' = ns[depth := cx];
          better = (case found of
                      None \<Rightarrow> False
                    | Some f \<Rightarrow> (case route of None \<Rightarrow> True
                                | Some (r, to) \<Rightarrow> length f < length r));
          route' = (if better then Some (the found, fid cx) else route)
      in if better \<and> the found = [] then (route', ns')
         else if solid cx then (route', ns')
         else (case depth of 0 \<Rightarrow> (route', ns') | Suc d \<Rightarrow> findPlace_scan A n d route' ns'))"
  by (subst findPlace_scan.simps) (simp add: route_at_def Let_def split_beta)

lemma scan_route:
  "depth < length ns \<Longrightarrow>
   fst (findPlace_scan A n depth (with_fid ns b) ns) =
   with_fid ns (shortest_first (\<lambda>d. route_at A n (ns ! d)) (scan_window ns depth) b)"
proof (induction depth arbitrary: ns b)
  case 0
  show ?case
    by (subst scan_step_unfold)
       (auto simp: Let_def with_fid_def split: option.splits)
next
  case (Suc d)
  let ?cx = "snd (findWrapping A (ns ! Suc d) n)"
  let ?ns' = "ns[Suc d := ?cx]"
  have len: "d < length ?ns'" using Suc.prems by simp
  have fids: "\<And>i. fid (?ns' ! i) = fid (ns ! i)"
    using Suc.prems by (simp add: nth_list_update)
  have wf: "\<And>b. with_fid ?ns' b = with_fid ns b"
    by (simp add: with_fid_def fids)
  have win: "scan_window ?ns' d = scan_window ns d"
    by (rule scan_window_cong) simp
  have rt: "shortest_first (\<lambda>k. route_at A n (?ns' ! k)) (scan_window ns d) b' =
            shortest_first (\<lambda>k. route_at A n (ns ! k)) (scan_window ns d) b'" for b'
    by (rule shortest_first_cong) (auto dest: scan_window_le)
  have ih: "fst (findPlace_scan A n d (with_fid ns b') ?ns') =
        with_fid ns (shortest_first (\<lambda>k. route_at A n (ns ! k)) (scan_window ns d) b')" for b'
    using Suc.IH [OF len, of b'] by (simp add: wf win rt)
  show ?case
  proof (cases "route_at A n (ns ! Suc d)")
    case None
    then show ?thesis
      using ih [of b]
      by (subst scan_step_unfold) (simp add: Let_def)
  next
    case (Some f)
    show ?thesis
    proof (cases "case b of None \<Rightarrow> True | Some (r0, d0) \<Rightarrow> length f < length r0")
      case True
      then have better: "(case with_fid ns b of None \<Rightarrow> True | Some (r, to) \<Rightarrow> length f < length r)"
        by (auto simp: with_fid_def split: option.splits)
      have step: "fst (findPlace_scan A n (Suc d) (with_fid ns b) ns) =
          (if f = [] \<or> solid (ns ! Suc d) then with_fid ns (Some (f, Suc d))
           else fst (findPlace_scan A n d (with_fid ns (Some (f, Suc d))) ?ns'))"
        using Some better
        by (subst scan_step_unfold) (auto simp: Let_def)
      have spec: "shortest_first (\<lambda>k. route_at A n (ns ! k)) (scan_window ns (Suc d)) b =
          shortest_first (\<lambda>k. route_at A n (ns ! k))
            (if solid (ns ! Suc d) then [] else scan_window ns d) (Some (f, Suc d))"
        using Some True by simp
      show ?thesis
        unfolding step spec using ih [of "Some (f, Suc d)"]
        by (auto simp: shortest_first_empty)
    next
      case False
      then have worse: "\<not> (case with_fid ns b of None \<Rightarrow> True | Some (r, to) \<Rightarrow> length f < length r)"
        by (auto simp: with_fid_def split: option.splits)
      show ?thesis
        using Some False worse ih [of b]
        by (subst scan_step_unfold) (auto simp: Let_def)
    qed
  qed
qed


lemma scan_Suc_snd:
  "snd (findPlace_scan A n (Suc d) route ns) = ns[Suc d := snd (findWrapping A (ns ! Suc d) n)] \<or>
   (\<not> solid (ns ! Suc d) \<and>
    (\<exists>r'. snd (findPlace_scan A n (Suc d) route ns) =
          snd (findPlace_scan A n d r' (ns[Suc d := snd (findWrapping A (ns ! Suc d) n)]))))"
  using scan_step_unfold [of A n "Suc d" route ns]
  by (auto simp: Let_def)

lemma scan_0_snd:
  "snd (findPlace_scan A n 0 route ns) = ns[0 := snd (findWrapping A (ns ! 0) n)]"
  using scan_step_unfold [of A n 0 route ns]
  by (auto simp: Let_def)

lemma scan_nodes:
  "depth < length ns \<Longrightarrow>
   length (snd (findPlace_scan A n depth route ns)) = length ns \<and>
   (\<forall>i. snd (findPlace_scan A n depth route ns) ! i = ns ! i \<or>
        (i \<in> set (scan_window ns depth) \<and>
         snd (findPlace_scan A n depth route ns) ! i = snd (findWrapping A (ns ! i) n)))"
proof (induction depth arbitrary: ns route)
  case 0
  then show ?case
    unfolding scan_0_snd by (auto simp: nth_list_update)
next
  case (Suc d)
  let ?cx = "snd (findWrapping A (ns ! Suc d) n)"
  let ?ns' = "ns[Suc d := ?cx]"
  have len: "d < length ?ns'" using Suc.prems by simp
  have win: "scan_window ?ns' d = scan_window ns d"
    by (rule scan_window_cong) simp
  note ih = Suc.IH [OF len, unfolded win]
  have here: "\<And>i. ?ns' ! i = ns ! i \<or> (i = Suc d \<and> ?ns' ! i = ?cx)"
    using Suc.prems by (simp add: nth_list_update)
  from scan_Suc_snd [of A n d route ns] show ?case
  proof
    assume "snd (findPlace_scan A n (Suc d) route ns) = ?ns'"
    then show ?thesis using here Suc.prems by auto
  next
    assume "\<not> solid (ns ! Suc d) \<and>
      (\<exists>r'. snd (findPlace_scan A n (Suc d) route ns) = snd (findPlace_scan A n d r' ?ns'))"
    then obtain route' where rec: "snd (findPlace_scan A n (Suc d) route ns) =
        snd (findPlace_scan A n d route' ?ns')" and ns: "\<not> solid (ns ! Suc d)"
      by blast
    have below: "\<And>i. i \<in> set (scan_window ns d) \<Longrightarrow> ?ns' ! i = ns ! i"
      by (auto dest!: scan_window_le)
    have l: "length (snd (findPlace_scan A n d route' ?ns')) = length ns"
      using ih [of route'] by simp
    have e: "snd (findPlace_scan A n d route' ?ns') ! i = ns ! i \<or>
        (i \<in> set (scan_window ns (Suc d)) \<and>
         snd (findPlace_scan A n d route' ?ns') ! i = snd (findWrapping A (ns ! i) n))" for i
    proof -
      from ih [of route'] have "snd (findPlace_scan A n d route' ?ns') ! i = ?ns' ! i \<or>
        (i \<in> set (scan_window ns d) \<and>
         snd (findPlace_scan A n d route' ?ns') ! i = snd (findWrapping A (?ns' ! i) n))"
        by blast
      then show ?thesis
      proof
        assume "snd (findPlace_scan A n d route' ?ns') ! i = ?ns' ! i"
        with here [of i] show ?thesis by auto
      next
        assume "i \<in> set (scan_window ns d) \<and>
         snd (findPlace_scan A n d route' ?ns') ! i = snd (findWrapping A (?ns' ! i) n)"
        with below [of i] ns show ?thesis by auto
      qed
    qed
    show ?thesis unfolding rec using l e by blast
  qed
qed

lemma scan_nodes_fields:
  assumes "depth < length ns"
  shows "fid (snd (findPlace_scan A n depth route ns) ! i) = fid (ns ! i)"
    and "solid (snd (findPlace_scan A n depth route ns) ! i) = solid (ns ! i)"
    and "ctype (snd (findPlace_scan A n depth route ns) ! i) = ctype (ns ! i)"
    and "content (snd (findPlace_scan A n depth route ns) ! i) = content (ns ! i)"
    and "options (snd (findPlace_scan A n depth route ns) ! i) = options (ns ! i)"
  using scan_nodes [OF assms, of A n route] by (metis findWrapping_frame)+

lemma scan_window_sorted: "sorted_wrt (\<lambda>a b. b < a) (scan_window ns k)"
  by (induction k) (auto dest: scan_window_le)

lemma scan_window_not_past_solid:
  "d \<in> set (scan_window ns k) \<Longrightarrow> d < j \<Longrightarrow> j \<le> k \<Longrightarrow> \<not> solid (ns ! j)"
proof (induction k)
  case 0
  then show ?case by simp
next
  case (Suc k)
  then show ?case
    by (cases "j = Suc k") (auto split: if_splits)
qed

lemma shortest_first_general:
  "(case shortest_first w ds b of
      None \<Rightarrow> b = None \<and> (\<forall>d \<in> set ds. w d = None)
    | Some (r, d) \<Rightarrow>
        (Some (r, d) = b \<and> (\<forall>y \<in> set ds. \<forall>r'. w y = Some r' \<longrightarrow> length r \<le> length r')) \<or>
        (\<exists>xs ys. ds = xs @ d # ys \<and> w d = Some r \<and>
           (\<forall>x \<in> set xs. \<forall>r'. w x = Some r' \<longrightarrow> length r < length r') \<and>
           (case b of None \<Rightarrow> True | Some (r0, d0) \<Rightarrow> length r < length r0) \<and>
           (\<forall>y \<in> set ys. \<forall>r'. w y = Some r' \<longrightarrow> length r \<le> length r')))"
proof (induction ds arbitrary: b)
  case Nil
  then show ?case by (auto split: option.splits)
next
  case (Cons a ds)
  define b' where "b' = (case w a of None \<Rightarrow> b
     | Some f \<Rightarrow> if (case b of None \<Rightarrow> True | Some (r0, d0) \<Rightarrow> length f < length r0)
                 then Some (f, a) else b)"
  have step: "shortest_first w (a # ds) b = shortest_first w ds b'"
    by (simp add: b'_def split: option.splits)
  show ?case
  proof (cases "shortest_first w ds b'")
    case None
    with Cons.IH [of b'] have "b' = None" "\<forall>d \<in> set ds. w d = None" by simp_all
    then show ?thesis
      unfolding step None by (auto simp: b'_def split: option.splits if_splits)
  next
    case (Some p)
    obtain r d where p: "p = (r, d)" by (cases p)
    from Cons.IH [of b'] Some p
    consider (kept) "Some (r, d) = b'"
        "\<forall>y \<in> set ds. \<forall>r'. w y = Some r' \<longrightarrow> length r \<le> length r'"
      | (found) xs ys where "ds = xs @ d # ys" "w d = Some r"
        "\<forall>x \<in> set xs. \<forall>r'. w x = Some r' \<longrightarrow> length r < length r'"
        "(case b' of None \<Rightarrow> True | Some (r0, d0) \<Rightarrow> length r < length r0)"
        "\<forall>y \<in> set ys. \<forall>r'. w y = Some r' \<longrightarrow> length r \<le> length r'"
      by auto
    then show ?thesis
    proof cases
      case kept
      show ?thesis
      proof (cases "b' = b")
        case True
        with kept have k: "b = Some (r, d)"
            "\<forall>y \<in> set (a # ds). \<forall>r'. w y = Some r' \<longrightarrow> length r \<le> length r'"
          by (auto simp: b'_def split: option.splits if_splits)
        show ?thesis
          unfolding step Some p option.case prod.case using k by blast
      next
        case False
        then have ba: "d = a" "w a = Some r"
          "(case b of None \<Rightarrow> True | Some (r0, d0) \<Rightarrow> length r < length r0)"
          using kept(1) by (auto simp: b'_def split: option.splits if_splits)
        have "a # ds = [] @ d # ds" using ba by simp
        with ba kept(2) show ?thesis
          unfolding step Some p option.case prod.case by fastforce
      qed
    next
      case found
      have x: "\<forall>x \<in> set (a # xs). \<forall>r'. w x = Some r' \<longrightarrow> length r < length r'"
        using found(3,4) by (auto simp: b'_def split: option.splits if_splits)
      have c: "(case b of None \<Rightarrow> True | Some (r0, d0) \<Rightarrow> length r < length r0)"
        using found(4) by (auto simp: b'_def split: option.splits if_splits)
      have "a # ds = (a # xs) @ d # ys" using found(1) by simp
      with x c found(2,5) show ?thesis
        unfolding step Some p option.case prod.case by blast
    qed
  qed
qed


lemma sync_from_distinct:
  "distinct (map fid ns) \<Longrightarrow> d \<le> k \<Longrightarrow> k < length ns \<Longrightarrow> sync_from ns (fid (ns ! d)) k = Some d"
proof (induction k)
  case 0
  then show ?case by simp
next
  case (Suc k)
  show ?case
  proof (cases "d = Suc k")
    case True
    then show ?thesis by simp
  next
    case False
    with Suc.prems have dk: "d \<le> k" "d < length ns" "Suc k < length ns" by simp_all
    have "fid (ns ! Suc k) \<noteq> fid (ns ! d)"
    proof
      assume "fid (ns ! Suc k) = fid (ns ! d)"
      then have "map fid ns ! Suc k = map fid ns ! d" using dk by simp
      with nth_eq_iff_index_eq [OF Suc.prems(1), of "Suc k" d] dk have "Suc k = d"
        by simp
      with False show False by simp
    qed
    with Suc.IH [OF Suc.prems(1) dk(1)] dk show ?thesis by simp
  qed
qed

lemma fold_last_nth:
  assumes "2 \<le> length ns" "i < length ns - 1"
  shows "fid (fold_last A oe ns ! i) = fid (ns ! i)"
    and "ctype (fold_last A oe ns ! i) = ctype (ns ! i)"
    and "solid (fold_last A oe ns ! i) = solid (ns ! i)"
    and "options (fold_last A oe ns ! i) = options (ns ! i)"
proof -
  have ne: "butlast ns \<noteq> []"
    using assms(1) by (cases ns rule: rev_cases) auto
  have "length ns - 1 - 1 = length ns - 2" by simp
  with last_conv_nth [OF ne] assms(1) have l: "last (butlast ns) = ns ! (length ns - 2)"
    by (simp add: nth_butlast)
  have "fold_last A oe ns ! i = ns ! i \<or>
        (\<exists>c. fold_last A oe ns ! i = (ns ! i)\<lparr>content := c\<rparr>)"
  proof (cases "i < length ns - 2")
    case True
    then show ?thesis
      by (simp add: fold_last_def Let_def nth_append nth_butlast)
  next
    case False
    with assms have "i = length ns - 2" by simp
    then show ?thesis
      using assms by (auto simp: fold_last_def Let_def nth_append l)
  qed
  then show "fid (fold_last A oe ns ! i) = fid (ns ! i)"
    "ctype (fold_last A oe ns ! i) = ctype (ns ! i)"
    "solid (fold_last A oe ns ! i) = solid (ns ! i)"
    "options (fold_last A oe ns ! i) = options (ns ! i)"
    by auto
qed

lemma closeExtra_n_nth:
  "k < length ns \<Longrightarrow> i < length ns - k \<Longrightarrow>
   fid (closeExtra_n A oe k ns ! i) = fid (ns ! i) \<and>
   ctype (closeExtra_n A oe k ns ! i) = ctype (ns ! i) \<and>
   solid (closeExtra_n A oe k ns ! i) = solid (ns ! i) \<and>
   options (closeExtra_n A oe k ns ! i) = options (ns ! i)"
proof (induction k arbitrary: ns)
  case 0
  then show ?case by simp
next
  case (Suc k)
  then have a: "2 \<le> length ns" "i < length ns - 1" by simp_all
  have b: "k < length (fold_last A oe ns)" "i < length (fold_last A oe ns) - k"
    using Suc.prems by (simp_all add: fold_last_length)
  from Suc.IH [OF b] fold_last_nth [OF a, of A oe] show ?case by simp
qed

lemma closeExtra_nth:
  assumes "popen s < length (nodes s)" "i \<le> popen s"
  shows "fid (nodes (closeExtra A oe s) ! i) = fid (nodes s ! i)"
    and "ctype (nodes (closeExtra A oe s) ! i) = ctype (nodes s ! i)"
    and "solid (nodes (closeExtra A oe s) ! i) = solid (nodes s ! i)"
    and "options (nodes (closeExtra A oe s) ! i) = options (nodes s ! i)"
  using closeExtra_n_nth [of "length (nodes s) - 1 - popen s" "nodes s" i A oe] assms
  by (simp_all add: closeExtra_def)

lemma enterInner_shape:
  assumes "popen s < length (nodes s)"
  shows "popen (enterInner A t a sol pw s) = Suc (popen s)"
    and "length (nodes (enterInner A t a sol pw s)) = popen s + 2"
    and "ctype (nodes (enterInner A t a sol pw s) ! Suc (popen s)) = Some t"
    and "solid (nodes (enterInner A t a sol pw s) ! Suc (popen s)) = sol"
    and "content (nodes (enterInner A t a sol pw s) ! Suc (popen s)) = []"
    and "\<And>i. i \<le> popen s \<Longrightarrow> fid (nodes (enterInner A t a sol pw s) ! i) = fid (nodes s ! i)"
    and "\<And>i. i \<le> popen s \<Longrightarrow> ctype (nodes (enterInner A t a sol pw s) ! i) = ctype (nodes s ! i)"
    and "\<And>i. i \<le> popen s \<Longrightarrow> solid (nodes (enterInner A t a sol pw s) ! i) = solid (nodes s ! i)"
proof -
  have len: "length (nodes (closeExtra A False s)) = Suc (popen s)"
    using assms by (rule closeExtra_length)
  note ce = closeExtra_nth [OF assms, where A = A and oe = False]
  show "popen (enterInner A t a sol pw s) = Suc (popen s)"
    by (simp add: enterInner_def Let_def set_top_def)
  show "length (nodes (enterInner A t a sol pw s)) = popen s + 2"
    using len by (simp add: enterInner_def Let_def set_top_def)
  show "ctype (nodes (enterInner A t a sol pw s) ! Suc (popen s)) = Some t"
    using len by (simp add: enterInner_def Let_def set_top_def nth_append new_NodeContext_def)
  show "solid (nodes (enterInner A t a sol pw s) ! Suc (popen s)) = sol"
    using len by (simp add: enterInner_def Let_def set_top_def nth_append new_NodeContext_def)
  show "content (nodes (enterInner A t a sol pw s) ! Suc (popen s)) = []"
    using len by (simp add: enterInner_def Let_def set_top_def nth_append new_NodeContext_def)
  show "fid (nodes (enterInner A t a sol pw s) ! i) = fid (nodes s ! i)" if "i \<le> popen s" for i
    using len that ce(1) [of i]
    by (simp add: enterInner_def Let_def set_top_def top_def nth_append nth_list_update)
  show "ctype (nodes (enterInner A t a sol pw s) ! i) = ctype (nodes s ! i)" if "i \<le> popen s" for i
    using len that ce(2) [of i]
    by (simp add: enterInner_def Let_def set_top_def top_def nth_append nth_list_update)
  show "solid (nodes (enterInner A t a sol pw s) ! i) = solid (nodes s ! i)" if "i \<le> popen s" for i
    using len that ce(3) [of i]
    by (simp add: enterInner_def Let_def set_top_def top_def nth_append nth_list_update)
qed

lemma fold_enterInner_shape:
  "popen s < length (nodes s) \<Longrightarrow>
   popen (fold (\<lambda>t. enterInner A t None False None) route s) = popen s + length route \<and>
   (route \<noteq> [] \<longrightarrow>
      length (nodes (fold (\<lambda>t. enterInner A t None False None) route s)) =
        popen s + 1 + length route) \<and>
   (\<forall>i \<le> popen s.
      fid (nodes (fold (\<lambda>t. enterInner A t None False None) route s) ! i) = fid (nodes s ! i) \<and>
      ctype (nodes (fold (\<lambda>t. enterInner A t None False None) route s) ! i) = ctype (nodes s ! i) \<and>
      solid (nodes (fold (\<lambda>t. enterInner A t None False None) route s) ! i) = solid (nodes s ! i)) \<and>
   (\<forall>i < length route.
      ctype (nodes (fold (\<lambda>t. enterInner A t None False None) route s) ! (popen s + 1 + i)) =
        Some (route ! i) \<and>
      \<not> solid (nodes (fold (\<lambda>t. enterInner A t None False None) route s) ! (popen s + 1 + i)))"
proof (induction route arbitrary: s)
  case Nil
  then show ?case by simp
next
  case (Cons t ts)
  let ?s1 = "enterInner A t None False None s"
  note sh = enterInner_shape [OF Cons.prems, where A = A and t = t and a = None
      and sol = False and pw = None]
  have wf1: "popen ?s1 < length (nodes ?s1)" using sh(1,2) by simp
  note ih = Cons.IH [OF wf1]
  let ?f = "fold (\<lambda>t. enterInner A t None False None) ts ?s1"
  have f: "fold (\<lambda>t. enterInner A t None False None) (t # ts) s = ?f" by simp
  have p: "popen ?f = popen s + length (t # ts)"
    using ih sh(1) by simp
  have l: "length (nodes ?f) = popen s + 1 + length (t # ts)"
  proof (cases ts)
    case Nil
    then show ?thesis using sh(2) by simp
  next
    case (Cons u us)
    then show ?thesis using ih sh(1) by simp
  qed
  have low: "fid (nodes ?f ! i) = fid (nodes s ! i) \<and> ctype (nodes ?f ! i) = ctype (nodes s ! i) \<and>
         solid (nodes ?f ! i) = solid (nodes s ! i)" if "i \<le> popen s" for i
  proof -
    from that sh(1) have "i \<le> popen ?s1" by simp
    with ih have "fid (nodes ?f ! i) = fid (nodes ?s1 ! i) \<and> ctype (nodes ?f ! i) = ctype (nodes ?s1 ! i) \<and>
         solid (nodes ?f ! i) = solid (nodes ?s1 ! i)" by blast
    with sh(6,7,8) [OF that] show ?thesis by simp
  qed
  have new: "ctype (nodes ?f ! (popen s + 1 + i)) = Some ((t # ts) ! i) \<and>
         \<not> solid (nodes ?f ! (popen s + 1 + i))" if "i < length (t # ts)" for i
  proof (cases i)
    case 0
    have "Suc (popen s) \<le> popen ?s1" using sh(1) by simp
    with ih have "ctype (nodes ?f ! Suc (popen s)) = ctype (nodes ?s1 ! Suc (popen s)) \<and>
        solid (nodes ?f ! Suc (popen s)) = solid (nodes ?s1 ! Suc (popen s))" by blast
    with sh(3,4) 0 show ?thesis by simp
  next
    case (Suc j)
    with that have "j < length ts" by simp
    with ih have "ctype (nodes ?f ! (popen ?s1 + 1 + j)) = Some (ts ! j) \<and>
        \<not> solid (nodes ?f ! (popen ?s1 + 1 + j))" by blast
    with Suc sh(1) show ?thesis by simp
  qed
  show ?case unfolding f using p l low new by blast
qed


lemma scan_window_set:
  "set (scan_window ns k) = {d. d \<le> k \<and> (\<forall>j. d < j \<and> j \<le> k \<longrightarrow> \<not> solid (ns ! j))}"
proof (induction k)
  case 0
  then show ?case by auto
next
  case (Suc k)
  show ?case
  proof (cases "solid (ns ! Suc k)")
    case True
    then show ?thesis by (auto simp: le_Suc_eq)
  next
    case False
    have "{d. d \<le> Suc k \<and> (\<forall>j. d < j \<and> j \<le> Suc k \<longrightarrow> \<not> solid (ns ! j))} =
          insert (Suc k) {d. d \<le> k \<and> (\<forall>j. d < j \<and> j \<le> k \<longrightarrow> \<not> solid (ns ! j))}"
      using False by (auto simp: le_Suc_eq)
    with False Suc.IH show ?thesis by simp
  qed
qed

lemma with_fid_None [simp]: "with_fid ns None = None"
  by (simp add: with_fid_def)

lemma scan_window_split:
  "scan_window ns k = xs @ d # ys \<Longrightarrow> (\<forall>x \<in> set xs. d < x) \<and> (\<forall>y \<in> set ys. y < d)"
  using scan_window_sorted [of ns k] by (auto simp: sorted_wrt_append)

lemma findPlace_result:
  assumes wf: "popen s < length (nodes s)" and dist: "distinct (map fid (nodes s))"
  shows "(case shortest_first (\<lambda>d. route_at A n (nodes s ! d)) (scan_window (nodes s) (popen s)) None of
      None \<Rightarrow> findPlace A n s =
               (False, s\<lparr>nodes := snd (findPlace_scan A n (popen s) None (nodes s))\<rparr>)
    | Some (route, d) \<Rightarrow> findPlace A n s =
               (True, fold (\<lambda>t. enterInner A t None False None) route
                        (s\<lparr>nodes := snd (findPlace_scan A n (popen s) None (nodes s)),
                           popen := d\<rparr>)))"
proof -
  let ?W = "scan_window (nodes s) (popen s)"
  let ?w = "\<lambda>d. route_at A n (nodes s ! d)"
  let ?sc = "findPlace_scan A n (popen s) None (nodes s)"
  have r: "fst ?sc = with_fid (nodes s) (shortest_first ?w ?W None)"
    using scan_route [OF wf, where A = A and n = n and b = None] by simp
  show ?thesis
  proof (cases "shortest_first ?w ?W None")
    case None
    with r have "fst ?sc = None" by simp
    then show ?thesis unfolding None
      by (cases ?sc) (simp add: findPlace_def)
  next
    case (Some p)
    obtain route d where p: "p = (route, d)" by (cases p)
    from shortest_first_general [where w = "?w" and ds = "?W" and b = None] Some p
    obtain xs ys where "?W = xs @ d # ys" by auto
    then have "d \<in> set ?W" by simp
    then have dle: "d \<le> popen s" by (rule scan_window_le)
    have fids: "map fid (snd ?sc) = map fid (nodes s)"
      using scan_nodes [OF wf, where A = A and n = n and route = None] scan_nodes_fields(1) [OF wf, where A = A and n = n and route = None]
      by (auto intro: nth_equalityI)
    have len: "length (snd ?sc) = length (nodes s)"
      using scan_nodes [OF wf, where A = A and n = n and route = None] by simp
    have "sync_from (snd ?sc) (fid (snd ?sc ! d)) (popen s) = Some d"
      by (rule sync_from_distinct) (simp_all add: fids dist dle len wf)
    then have sy: "sync_from (snd ?sc) (fid (nodes s ! d)) (popen s) = Some d"
      by (simp add: scan_nodes_fields(1) [OF wf])
    obtain q ns' where sc: "?sc = (q, ns')" by (cases ?sc)
    from r Some p sc have q: "q = Some (route, fid (nodes s ! d))" by simp
    from sy sc have "sync_from ns' (fid (nodes s ! d)) (popen s) = Some d" by simp
    then show ?thesis unfolding Some p
      by (simp add: findPlace_def sync_def sc q)
  qed
qed

text \<open>
  Claim C5. With \<open>W\<close> the depths from the innermost open frame outward up to and
  including the first solid frame (these are exactly the depths with no solid frame
  strictly above them): \<^verbatim>\<open>findPlace\<close> returns false exactly when no frame of \<open>W\<close> has a
  route for the node. When it returns true, there is a frame \<open>d\<close> of \<open>W\<close> with a route
  such that no frame of \<open>W\<close> has a shorter route and every frame of \<open>W\<close> with a route of
  the same length lies at or outside \<open>d\<close>; the frames up to \<open>d\<close> are the old ones, \<open>popen\<close>
  is \<open>d\<close> plus the length of the route, and above \<open>d\<close> stands one new frame for every
  type of the route, in order, none of them solid. The frames of the stack are distinct
  objects, which is the second assumption.
\<close>

theorem findPlace_placement:
  assumes wf: "popen s < length (nodes s)" and dist: "distinct (map fid (nodes s))"
  shows
    "set (scan_window (nodes s) (popen s)) =
       {d. d \<le> popen s \<and> (\<forall>j. d < j \<and> j \<le> popen s \<longrightarrow> \<not> solid (nodes s ! j))} \<and>
     (\<not> fst (findPlace A n s) \<longleftrightarrow>
        (\<forall>d \<in> set (scan_window (nodes s) (popen s)). route_at A n (nodes s ! d) = None)) \<and>
     (fst (findPlace A n s) \<longrightarrow>
        (\<exists>d route.
           d \<in> set (scan_window (nodes s) (popen s)) \<and>
           route_at A n (nodes s ! d) = Some route \<and>
           (\<forall>d' \<in> set (scan_window (nodes s) (popen s)). \<forall>r'.
              route_at A n (nodes s ! d') = Some r' \<longrightarrow>
              length route \<le> length r' \<and> (length r' = length route \<longrightarrow> d' \<le> d)) \<and>
           popen (snd (findPlace A n s)) = d + length route \<and>
           (route \<noteq> [] \<longrightarrow> length (nodes (snd (findPlace A n s))) = d + 1 + length route) \<and>
           (\<forall>i \<le> d.
              fid (nodes (snd (findPlace A n s)) ! i) = fid (nodes s ! i) \<and>
              ctype (nodes (snd (findPlace A n s)) ! i) = ctype (nodes s ! i) \<and>
              solid (nodes (snd (findPlace A n s)) ! i) = solid (nodes s ! i)) \<and>
           (\<forall>i < length route.
              ctype (nodes (snd (findPlace A n s)) ! (d + 1 + i)) = Some (route ! i) \<and>
              \<not> solid (nodes (snd (findPlace A n s)) ! (d + 1 + i)))))"
proof -
  let ?W = "scan_window (nodes s) (popen s)"
  let ?w = "\<lambda>d. route_at A n (nodes s ! d)"
  let ?sc = "findPlace_scan A n (popen s) None (nodes s)"
  note res = findPlace_result [OF wf dist, where A = A and n = n]
  have window: "set ?W =
       {d. d \<le> popen s \<and> (\<forall>j. d < j \<and> j \<le> popen s \<longrightarrow> \<not> solid (nodes s ! j))}"
    by (rule scan_window_set)
  show ?thesis
  proof (cases "shortest_first ?w ?W None")
    case None
    with res have f: "\<not> fst (findPlace A n s)" by simp
    from shortest_first_general [where w = "?w" and ds = "?W" and b = None] None
    have "\<forall>d \<in> set ?W. ?w d = None" by simp
    with f window show ?thesis by blast
  next
    case (Some p)
    obtain route d where p: "p = (route, d)" by (cases p)
    let ?s2 = "s\<lparr>nodes := snd ?sc, popen := d\<rparr>"
    let ?s' = "fold (\<lambda>t. enterInner A t None False None) route ?s2"
    from res Some p have fp: "findPlace A n s = (True, ?s')" by simp
    from shortest_first_general [where w = "?w" and ds = "?W" and b = None] Some p
    obtain xs ys where sp: "?W = xs @ d # ys" "?w d = Some route"
      "\<forall>x \<in> set xs. \<forall>r'. ?w x = Some r' \<longrightarrow> length route < length r'"
      "\<forall>y \<in> set ys. \<forall>r'. ?w y = Some r' \<longrightarrow> length route \<le> length r'"
      by auto
    from scan_window_split [OF sp(1)]
    have ord: "\<forall>x \<in> set xs. d < x" "\<forall>y \<in> set ys. y < d" by simp_all
    have dW: "d \<in> set ?W" using sp(1) by simp
    then have dle: "d \<le> popen s" by (rule scan_window_le)
    have best: "length route \<le> length r' \<and> (length r' = length route \<longrightarrow> d' \<le> d)"
      if "d' \<in> set ?W" "?w d' = Some r'" for d' r'
    proof -
      from that(1) sp(1) consider "d' \<in> set xs" | "d' = d" | "d' \<in> set ys" by auto
      then show ?thesis
      proof cases
        case 1
        with sp(3) that(2) show ?thesis by auto
      next
        case 2
        with sp(2) that(2) show ?thesis by simp
      next
        case 3
        with sp(4) ord(2) that(2) show ?thesis by auto
      qed
    qed
    have len: "length (snd ?sc) = length (nodes s)"
      using scan_nodes [OF wf, where A = A and n = n and route = None] by simp
    have wf2: "popen ?s2 < length (nodes ?s2)" using dle wf len by simp
    note sh = fold_enterInner_shape [OF wf2, where A = A and route = route]
    note fl = scan_nodes_fields [OF wf, where A = A and n = n and route = None]
    have a: "popen ?s' = d + length route" using sh by simp
    have b: "route \<noteq> [] \<longrightarrow> length (nodes ?s') = d + 1 + length route" using sh by simp
    have c: "\<forall>i \<le> d. fid (nodes ?s' ! i) = fid (nodes s ! i) \<and>
              ctype (nodes ?s' ! i) = ctype (nodes s ! i) \<and>
              solid (nodes ?s' ! i) = solid (nodes s ! i)"
      using sh fl(1,2,3) by simp
    have e: "\<forall>i < length route. ctype (nodes ?s' ! (d + 1 + i)) = Some (route ! i) \<and>
              \<not> solid (nodes ?s' ! (d + 1 + i))"
      using sh by simp
    have "\<not> (\<forall>d \<in> set ?W. ?w d = None)" using dW sp(2) by auto
    moreover have "\<exists>d route.
           d \<in> set ?W \<and> ?w d = Some route \<and>
           (\<forall>d' \<in> set ?W. \<forall>r'. ?w d' = Some r' \<longrightarrow>
              length route \<le> length r' \<and> (length r' = length route \<longrightarrow> d' \<le> d)) \<and>
           popen ?s' = d + length route \<and>
           (route \<noteq> [] \<longrightarrow> length (nodes ?s') = d + 1 + length route) \<and>
           (\<forall>i \<le> d. fid (nodes ?s' ! i) = fid (nodes s ! i) \<and>
              ctype (nodes ?s' ! i) = ctype (nodes s ! i) \<and>
              solid (nodes ?s' ! i) = solid (nodes s ! i)) \<and>
           (\<forall>i < length route. ctype (nodes ?s' ! (d + 1 + i)) = Some (route ! i) \<and>
              \<not> solid (nodes ?s' ! (d + 1 + i)))"
      using dW sp(2) best a b c e by blast
    ultimately show ?thesis
      unfolding fp fst_conv snd_conv using window by blast
  qed
qed

text \<open>
  An example: in the document, a block quote (solid) and in it a paragraph opened as a
  wrapper. A paragraph node has no place in the open paragraph but fits the block quote
  as it is, so the stack is synchronized to the block quote and no frame is pushed.
\<close>

definition ex_wrapped :: ParseContext where
  "ex_wrapped =
     ex_state [ex_frame 0 (Some ex_doc) 0, ex_frame 1 (Some ex_blockquote) 0,
               (ex_frame 2 (Some ex_paragraph) 0)\<lparr>solid := False\<rparr>] False"

theorem findPlace_placement_witness:
  "popen ex_wrapped < length (nodes ex_wrapped) \<and> distinct (map fid (nodes ex_wrapped)) \<and>
   scan_window (nodes ex_wrapped) (popen ex_wrapped) = [2, 1] \<and>
   fst (findPlace ex_api (Node ex_paragraph None [] [] None) ex_wrapped) \<and>
   popen (snd (findPlace ex_api (Node ex_paragraph None [] [] None) ex_wrapped)) = 1"
proof -
  have e: "popen ex_wrapped < length (nodes ex_wrapped)" "distinct (map fid (nodes ex_wrapped))"
    "scan_window (nodes ex_wrapped) (popen ex_wrapped) = [2, 1]"
    "fst (findPlace ex_api (Node ex_paragraph None [] [] None) ex_wrapped)"
    "popen (snd (findPlace ex_api (Node ex_paragraph None [] [] None) ex_wrapped)) = 1"
    by code_simp+
  from findPlace_placement [OF e(1,2), where A = ex_api and n = "Node ex_paragraph None [] [] None"]
  have "\<not> (\<forall>d \<in> set (scan_window (nodes ex_wrapped) (popen ex_wrapped)).
           route_at ex_api (Node ex_paragraph None [] [] None) (nodes ex_wrapped ! d) = None)"
    using e(4) by blast
  with e show ?thesis by simp
qed

section \<open>An ignored \<^verbatim>\<open>BR\<close> element (claim C9)\<close>

text \<open>
  \<^verbatim>\<open>ignoreFallback\<close> passes the text node \<^verbatim>\<open>"-"\<close> to \<^verbatim>\<open>findPlace\<close>, not to
  \<^verbatim>\<open>insertNode\<close>: the search opens the wrappers the text would need and leaves it at
  that. The lemmas follow the contents of the frames through the search.
\<close>

lemma closeExtra_id: "length (nodes s) = Suc (popen s) \<Longrightarrow> closeExtra A oe s = s"
  by (simp add: closeExtra_def)

lemma enterInner_contents:
  assumes "popen s < length (nodes s)"
  shows "map content (nodes (enterInner A t a sol pw s)) =
         map content (nodes (closeExtra A False s)) @ [[]]"
proof -
  have len: "length (nodes (closeExtra A False s)) = Suc (popen s)"
    using assms by (rule closeExtra_length)
  have "map content ((nodes (closeExtra A False s))[popen s := cx]) =
        map content (nodes (closeExtra A False s))"
    if "content cx = content (nodes (closeExtra A False s) ! popen s)" for cx
    using that by (simp add: map_update) (metis list_update_id map_update)
  then show ?thesis
    by (simp add: enterInner_def Let_def set_top_def top_def new_NodeContext_def)
qed

lemma fold_enterInner_contents:
  "popen s < length (nodes s) \<Longrightarrow> route \<noteq> [] \<Longrightarrow>
   map content (nodes (fold (\<lambda>t. enterInner A t None False None) route s)) =
   map content (nodes (closeExtra A False s)) @ replicate (length route) []"
proof (induction route arbitrary: s)
  case Nil
  then show ?case by simp
next
  case (Cons t ts)
  let ?s1 = "enterInner A t None False None s"
  note sh = enterInner_shape [OF Cons.prems(1), where A = A and t = t and a = None
      and sol = False and pw = None]
  have c1: "map content (nodes ?s1) = map content (nodes (closeExtra A False s)) @ [[]]"
    using Cons.prems(1) by (rule enterInner_contents)
  show ?case
  proof (cases ts)
    case Nil
    with c1 show ?thesis by simp
  next
    case (Cons u us)
    have wf1: "popen ?s1 < length (nodes ?s1)" using sh(1,2) by simp
    have id: "closeExtra A False ?s1 = ?s1"
      by (rule closeExtra_id) (simp add: sh(1,2))
    from Cons.IH [OF wf1] Cons have
      "map content (nodes (fold (\<lambda>t. enterInner A t None False None) ts ?s1)) =
       map content (nodes ?s1) @ replicate (length ts) []"
      by (simp add: id)
    with c1 show ?thesis by (simp add: replicate_append_same)
  qed
qed

lemma scan_contents:
  assumes "depth < length ns"
  shows "map content (snd (findPlace_scan A n depth route ns)) = map content ns"
  using scan_nodes [OF assms, where A = A and n = n and route = route]
    scan_nodes_fields(4) [OF assms, where A = A and n = n and route = route]
  by (auto intro: nth_equalityI)

lemma findPlace_contents:
  assumes wf: "popen s < length (nodes s)" and dist: "distinct (map fid (nodes s))"
  shows "\<exists>d (route :: NodeType list). d \<le> popen s \<and> popen (snd (findPlace A n s)) = d + length route \<and>
     (route \<noteq> [] \<longrightarrow> fst (findPlace A n s) \<and> d \<in> set (scan_window (nodes s) (popen s))) \<and>
     map content (nodes (snd (findPlace A n s))) =
       (if route = [] then map content (nodes s)
        else map content (nodes (closeExtra A False
               (s\<lparr>nodes := snd (findPlace_scan A n (popen s) None (nodes s)), popen := d\<rparr>))) @
             replicate (length route) [])"
proof -
  let ?W = "scan_window (nodes s) (popen s)"
  let ?w = "\<lambda>d. route_at A n (nodes s ! d)"
  let ?sc = "findPlace_scan A n (popen s) None (nodes s)"
  note res = findPlace_result [OF wf dist, where A = A and n = n]
  note sc = scan_contents [OF wf, where A = A and n = n and route = None]
  have len: "length (snd ?sc) = length (nodes s)"
    using scan_nodes [OF wf, where A = A and n = n and route = None] by simp
  show ?thesis
  proof (cases "shortest_first ?w ?W None")
    case None
    with res have "findPlace A n s = (False, s\<lparr>nodes := snd ?sc\<rparr>)" by simp
    then have "popen (snd (findPlace A n s)) = popen s \<and>
      map content (nodes (snd (findPlace A n s))) = map content (nodes s)"
      using sc by simp
    then show ?thesis
      apply (intro exI [where x = "popen s"])
      apply (rule exI [where x = "[]"])
      apply simp
      done
  next
    case (Some p)
    obtain route d where p: "p = (route, d)" by (cases p)
    let ?s2 = "s\<lparr>nodes := snd ?sc, popen := d\<rparr>"
    from res Some p have fp: "findPlace A n s =
        (True, fold (\<lambda>t. enterInner A t None False None) route ?s2)" by simp
    from shortest_first_general [where w = "?w" and ds = "?W" and b = None] Some p
    obtain xs ys where "?W = xs @ d # ys" by auto
    then have dW: "d \<in> set ?W" by simp
    then have dle: "d \<le> popen s" by (rule scan_window_le)
    have wf2: "popen ?s2 < length (nodes ?s2)" using dle wf len by simp
    have po: "popen (fold (\<lambda>t. enterInner A t None False None) route ?s2) = d + length route"
      using fold_enterInner_shape [OF wf2, where A = A and route = route] by simp
    have co: "map content (nodes (fold (\<lambda>t. enterInner A t None False None) route ?s2)) =
       (if route = [] then map content (nodes s)
        else map content (nodes (closeExtra A False ?s2)) @ replicate (length route) [])"
      using fold_enterInner_contents [OF wf2, where A = A and route = route] sc by simp
    show ?thesis
      unfolding fp fst_conv snd_conv
      apply (rule exI [where x = d])
      apply (rule exI [where x = route])
      apply (simp add: dle po co dW)
      done
  qed
qed

lemma scan_window_solid: "solid (ns ! k) \<Longrightarrow> scan_window ns k = [k]"
  by (cases k) simp_all

text \<open>
  Claim C9 says that the placeholder text is inserted into the output. The document
  \<^verbatim>\<open><div><br></div>\<close> is parsed with one rule, which ignores \<^verbatim>\<open>br\<close>. When the element has
  been added two frames are open, the document and a paragraph, both without content;
  the parse returns a document that holds one empty paragraph, and no text.
\<close>

definition ex_br_rule :: ParseRule where
  "ex_br_rule = ex_rule\<lparr>r_tag := Some ''br'', r_ignore := True\<rparr>"

definition ex_br_dom :: dom where
  "ex_br_dom = [0 \<mapsto> ex_element ''DIV'' [1] None, 1 \<mapsto> ex_element ''BR'' [] (Some 0)]"

theorem ignored_br_counterexample:
  "map_sum id fst (DOMParser_parse 5 ex_api [ex_br_rule] ex_br_dom 10 0 ex_options) =
     Inr (FNode (Node ex_doc None [Node ex_paragraph None [] [] None] [] None)) \<and>
   map_sum id (\<lambda>s. (popen s, map content (nodes s)))
     (addElement 3 ex_api 1 None
        (new_ParseContext ex_api [ex_br_rule] [] True ex_br_dom 10 ex_options False)) =
     Inr (1, [[], []])"
  by code_simp

text \<open>
  Claim C9, amended. For an ignored \<^verbatim>\<open>BR\<close> element, when the innermost open frame has no
  type or a type without inline content, \<^verbatim>\<open>ignoreFallback\<close> is the placement search for
  the text node \<^verbatim>\<open>"-"\<close>, and the text node is placed nowhere. The search chooses an open
  frame \<open>d\<close> and a route of wrappers (none when it fails or the frame takes text as it
  is). With no wrapper the contents of all frames are as before. Otherwise the frames
  above \<open>d\<close> are closed into it, as for any new frame, and one frame without content is
  opened for each wrapper. In particular, when the innermost open frame is solid and no
  frame above it waits to be closed, the contents of the frames are those of before
  followed by empty ones.
\<close>

theorem ignoreFallback_probe:
  assumes wf: "popen s < length (nodes s)" and dist: "distinct (map fid (nodes s))"
    and br: "nodeName dn = ''BR''"
    and block: "case ctype (top s) of None \<Rightarrow> True | Some t \<Rightarrow> \<not> inlineContent t"
  shows "ignoreFallback A dn s = snd (findPlace A (schema_text A ''-'') s) \<and>
    (\<exists>d (route :: NodeType list). d \<le> popen s \<and>
       popen (ignoreFallback A dn s) = d + length route \<and>
       map content (nodes (ignoreFallback A dn s)) =
         (if route = [] then map content (nodes s)
          else map content (nodes (closeExtra A False
                 (s\<lparr>nodes := snd (findPlace_scan A (schema_text A ''-'') (popen s) None (nodes s)),
                    popen := d\<rparr>))) @
               replicate (length route) [])) \<and>
    (solid (top s) \<and> length (nodes s) = Suc (popen s) \<longrightarrow>
       (\<exists>k. map content (nodes (ignoreFallback A dn s)) =
            map content (nodes s) @ replicate k []))"
proof -
  let ?n = "schema_text A ''-''"
  let ?sc = "findPlace_scan A ?n (popen s) None (nodes s)"
  have eq: "ignoreFallback A dn s = snd (findPlace A ?n s)"
    using br block by (simp add: ignoreFallback_def)
  from findPlace_contents [OF wf dist, where A = A and n = ?n]
  obtain d and route :: "NodeType list" where d: "d \<le> popen s"
    and po: "popen (snd (findPlace A ?n s)) = d + length route"
    and win: "route \<noteq> [] \<longrightarrow> d \<in> set (scan_window (nodes s) (popen s))"
    and co: "map content (nodes (snd (findPlace A ?n s))) =
       (if route = [] then map content (nodes s)
        else map content (nodes (closeExtra A False (s\<lparr>nodes := snd ?sc, popen := d\<rparr>))) @
             replicate (length route) [])"
    by blast
  have two: "\<exists>d (route :: NodeType list). d \<le> popen s \<and>
       popen (snd (findPlace A ?n s)) = d + length route \<and>
       map content (nodes (snd (findPlace A ?n s))) =
         (if route = [] then map content (nodes s)
          else map content (nodes (closeExtra A False (s\<lparr>nodes := snd ?sc, popen := d\<rparr>))) @
               replicate (length route) [])"
    using d po co by blast
  have three: "\<exists>k. map content (nodes (snd (findPlace A ?n s))) =
      map content (nodes s) @ replicate k []"
    if so: "solid (top s)" and full: "length (nodes s) = Suc (popen s)"
  proof (cases "route = []")
    case True
    with co have "map content (nodes (snd (findPlace A ?n s))) =
      map content (nodes s) @ replicate 0 []" by simp
    then show ?thesis by blast
  next
    case False
    have "scan_window (nodes s) (popen s) = [popen s]"
      using so by (simp add: scan_window_solid top_def)
    with win False have dp: "d = popen s" by simp
    have len: "length (snd ?sc) = length (nodes s)"
      using scan_nodes [OF wf, where A = A and n = ?n and route = None] by simp
    have "closeExtra A False (s\<lparr>nodes := snd ?sc, popen := d\<rparr>) =
          s\<lparr>nodes := snd ?sc, popen := d\<rparr>"
      by (rule closeExtra_id) (simp add: len full dp)
    with co False have "map content (nodes (snd (findPlace A ?n s))) =
      map content (nodes s) @ replicate (length route) []"
      using scan_contents [OF wf, where A = A and n = ?n and route = None] by simp
    then show ?thesis by blast
  qed
  show ?thesis unfolding eq using two three by blast
qed

text \<open>An example: the element in the document frame, where a paragraph is opened.\<close>

definition ex_br :: DOMNode where
  "ex_br = ex_element ''BR'' [] None"

definition ex_in_doc :: ParseContext where
  "ex_in_doc = ex_state [ex_frame 0 (Some ex_doc) 0] False"

theorem ignoreFallback_probe_witness:
  "popen ex_in_doc < length (nodes ex_in_doc) \<and> distinct (map fid (nodes ex_in_doc)) \<and>
   nodeName ex_br = ''BR'' \<and>
   (case ctype (top ex_in_doc) of None \<Rightarrow> True | Some t \<Rightarrow> \<not> inlineContent t) \<and>
   solid (top ex_in_doc) \<and> length (nodes ex_in_doc) = Suc (popen ex_in_doc) \<and>
   ignoreFallback ex_api ex_br ex_in_doc =
     snd (findPlace ex_api (schema_text ex_api ''-'') ex_in_doc) \<and>
   (\<exists>k. map content (nodes (ignoreFallback ex_api ex_br ex_in_doc)) =
        map content (nodes ex_in_doc) @ replicate k [])"
proof -
  have h: "popen ex_in_doc < length (nodes ex_in_doc)"
    "distinct (map fid (nodes ex_in_doc))"
    "nodeName ex_br = ''BR''"
    "case ctype (top ex_in_doc) of None \<Rightarrow> True | Some t \<Rightarrow> \<not> inlineContent t"
    "solid (top ex_in_doc)" "length (nodes ex_in_doc) = Suc (popen ex_in_doc)"
    by code_simp+
  from ignoreFallback_probe [OF h(1-4), where A = ex_api] h show ?thesis by blast
qed

section \<open>Text of white space only (claim C6)\<close>

text \<open>
  When \<^verbatim>\<open>addTextNode\<close> drops a text node it calls \<^verbatim>\<open>findInside\<close> with the text node.
  \<^verbatim>\<open>findInside\<close> asks for \<^verbatim>\<open>parent.nodeType == 1\<close>, so with a text node it assigns no
  position.
\<close>

lemma find_loop_never:
  assumes "\<And>e. \<not> cond e"
  shows "find_loop A cond val s = s"
proof -
  have step: "find_step A cond val i t = t" for i t
    using assms by (simp add: find_step_def Let_def split: option.splits)
  have "fold (find_step A cond val) is t = t" for "is" t
    by (induction "is") (simp_all add: step)
  then show ?thesis by (simp add: find_loop_def split: option.splits)
qed

lemma findInside_text:
  assumes "doc s d = Some dn" and "nodeType dn \<noteq> 1"
  shows "findInside A d s = s"
  unfolding findInside_def
  by (rule find_loop_never) (use assms in \<open>simp add: is_element_def\<close>)

text \<open>
  Claim C6. A text node of white space only, met while the innermost open frame does not
  preserve all white space and is no inline context, leaves the whole state of the parse
  as it was. So no text node is added, which is the first half of the claim. The second
  half does not hold of the code: the positions tracked in the text node are part of that
  state, and none of them is assigned.
\<close>

theorem whitespace_text_discarded:
  assumes "doc s d = Some dn" and "nodeType dn = 3"
    and "\<not> has_non_ws (nodeValue dn)"
    and "options (top s) AND OPT_PRESERVE_WS_FULL = 0"
    and "\<not> inlineContext (doc s) (top s) dn"
  shows "addTextNode A d dn s = s"
proof -
  have "findInside A d s = s"
  proof (rule findInside_text)
    show "doc s d = Some dn" by (rule assms(1))
    show "nodeType dn \<noteq> 1" unfolding assms(2) by simp
  qed
  then show ?thesis using assms(3-5) by (simp add: addTextNode_def Let_def)
qed

text \<open>
  An example: \<^verbatim>\<open><div>   </div>\<close> with a position tracked at offset 1 of the text node.
  The text node leaves the state unchanged, and at the end of the whole parse, which
  returns a document with the paragraph that fills it, the position is still not set.
\<close>

definition ex_blank_dom :: dom where
  "ex_blank_dom = [0 \<mapsto> ex_element ''DIV'' [1] None, 1 \<mapsto> ex_textnode ''   '' (Some 0)]"

definition ex_blank_find :: "FindPos list" where
  "ex_blank_find = [\<lparr>fp_node = 1, fp_offset = 1, fp_pos = None\<rparr>]"

definition ex_blank_state :: ParseContext where
  "ex_blank_state = new_ParseContext ex_api [] [] True ex_blank_dom 10
     (ex_options\<lparr>o_findPositions := Some ex_blank_find\<rparr>) False"

theorem whitespace_text_discarded_witness:
  "doc ex_blank_state 1 = Some (ex_textnode ''   '' (Some 0)) \<and>
   nodeType (ex_textnode ''   '' (Some 0)) = 3 \<and>
   \<not> has_non_ws (nodeValue (ex_textnode ''   '' (Some 0))) \<and>
   options (top ex_blank_state) AND OPT_PRESERVE_WS_FULL = 0 \<and>
   \<not> inlineContext (doc ex_blank_state) (top ex_blank_state) (ex_textnode ''   '' (Some 0)) \<and>
   pfind ex_blank_state = Some [\<lparr>fp_node = 1, fp_offset = 1, fp_pos = None\<rparr>] \<and>
   addTextNode ex_api 1 (ex_textnode ''   '' (Some 0)) ex_blank_state = ex_blank_state"
proof -
  have h: "doc ex_blank_state 1 = Some (ex_textnode ''   '' (Some 0))"
    "nodeType (ex_textnode ''   '' (Some 0)) = 3"
    "\<not> has_non_ws (nodeValue (ex_textnode ''   '' (Some 0)))"
    "options (top ex_blank_state) AND OPT_PRESERVE_WS_FULL = 0"
    "\<not> inlineContext (doc ex_blank_state) (top ex_blank_state) (ex_textnode ''   '' (Some 0))"
    "pfind ex_blank_state = Some [\<lparr>fp_node = 1, fp_offset = 1, fp_pos = None\<rparr>]"
    by code_simp+
  from whitespace_text_discarded [OF h(1-5), where A = ex_api] h show ?thesis by blast
qed

theorem whitespace_position_unresolved:
  "map_sum id (\<lambda>(f, s). (f, pfind s))
     (DOMParser_parse 5 ex_api [] ex_blank_dom 10 0
        (ex_options\<lparr>o_findPositions := Some ex_blank_find\<rparr>)) =
   Inr (FNode (Node ex_doc None [Node ex_paragraph None [] [] None] [] None),
        Some [\<lparr>fp_node = 1, fp_offset = 1, fp_pos = None\<rparr>])"
  by code_simp

section \<open>The outer mark after a nested mark of its type (claim C1)\<close>

text \<open>
  \<^verbatim>\<open>addPendingMark\<close> stashes a pending mark only when it is equal to the new one
  (\<^verbatim>\<open>findSameMarkInSet\<close> compares with \<^verbatim>\<open>eq\<close>), and \<^verbatim>\<open>removePendingMark\<close> restores only
  from the stash. A mark with other attributes whose type excludes the type of a member
  takes the member's place, in \<^verbatim>\<open>pendingMarks\<close> when it is pushed and in \<^verbatim>\<open>activeMarks\<close>
  when \<^verbatim>\<open>applyPending\<close> moves it there, and the member is kept nowhere.
\<close>

lemma addToSet_replaces:
  assumes "\<not> mark_eq m x" and "mk_type x \<in> set (mk_excluded m)"
  shows "addToSet m [x] = [m]"
  using assms by (simp add: addToSet_def)

lemma addPendingMark_replaces:
  assumes "popen s < length (nodes s)" and "pendingMarks (top s) = [x]"
    and "\<not> mark_eq m x" and "mk_type x \<in> set (mk_excluded m)"
  shows "pendingMarks (top (addPendingMark m s)) = [m] \<and>
         stashMarks (top (addPendingMark m s)) = stashMarks (top s) \<and>
         activeMarks (top (addPendingMark m s)) = activeMarks (top s)"
  using assms by (simp add: addPendingMark_def Let_def top_def set_top_def addToSet_replaces)

text \<open>
  The example: a mark type \<^verbatim>\<open>size\<close> that excludes itself, as every mark type does unless
  its declaration says otherwise, one rule for the style \<^verbatim>\<open>font-size\<close> that takes the
  value as the attribute of the mark and one rule for paragraphs. The input is
  \<^verbatim>\<open><p><span style="font-size: 10px">x<span style="font-size: 20px">y</span>z</span></p>\<close>
  in the first document, and the same without the text \<^verbatim>\<open>x\<close> in the second.
\<close>

definition ex_size_rules :: "ParseRule list" where
  "ex_size_rules =
     [ex_rule\<lparr>r_tag := Some ''p'', r_node := Some ''paragraph''\<rparr>,
      ex_rule\<lparr>r_style := Some ''font-size'', r_mark := Some ''size'',
              r_getAttrs := Some (\<lambda>D arg. case arg of
                                    ArgString v \<Rightarrow> GotAttrs [(''size'', v)]
                                  | ArgElement d \<Rightarrow> Reject)\<rparr>]"

definition ex_span :: "string \<Rightarrow> nat list \<Rightarrow> nat \<Rightarrow> DOMNode" where
  "ex_span style cs p = (ex_element ''SPAN'' cs (Some p))\<lparr>styleAttr := Some style\<rparr>"

definition ex_size_dom :: dom where
  "ex_size_dom =
     [0 \<mapsto> ex_element ''DIV'' [1] None,
      1 \<mapsto> ex_element ''P'' [2] (Some 0),
      2 \<mapsto> ex_span ''font-size: 10px'' [3, 4, 6] 1,
      3 \<mapsto> ex_textnode ''x'' (Some 2),
      4 \<mapsto> ex_span ''font-size: 20px'' [5] 2,
      5 \<mapsto> ex_textnode ''y'' (Some 4),
      6 \<mapsto> ex_textnode ''z'' (Some 2)]"


definition ex_size :: "nat \<Rightarrow> string \<Rightarrow> string list \<Rightarrow> Mark" where
  "ex_size i v ex = \<lparr>mk_id = i, mk_type = ''size'', mk_attrs = [(''size'', v)], mk_excluded = ex\<rparr>"

definition ex_marked :: "string \<Rightarrow> Mark list \<Rightarrow> node" where
  "ex_marked v ms = Node ex_text None [] ms (Some v)"

definition ex_document :: "node list \<Rightarrow> finished" where
  "ex_document ns = FNode (Node ex_doc None [Node ex_paragraph None ns [] None] [] None)"

text \<open>The same schema with a mark type \<^verbatim>\<open>size\<close> declared to exclude nothing.\<close>

definition ex_api_coexist :: api where
  "ex_api_coexist = ex_api\<lparr>mark_create :=
     (\<lambda>t a k. map_option (\<lambda>m. m\<lparr>mk_excluded := []\<rparr>) (mark_create ex_api t a k))\<rparr>"


text \<open>
  With the mark type that excludes nothing the two marks lie side by side, no mark is
  ever displaced, and \<^verbatim>\<open>z\<close> carries the outer mark.
\<close>

lemma outer_mark_kept_without_exclusion:
  "map_sum id fst (DOMParser_parse 40 ex_api_coexist ex_size_rules ex_size_dom 10 0 ex_options) =
     Inr (ex_document [ex_marked ''x'' [ex_size 12 ''10px'' []],
                       ex_marked ''y'' [ex_size 12 ''10px'' [], ex_size 13 ''20px'' []],
                       ex_marked ''z'' [ex_size 12 ''10px'' []]])"
  by code_simp

section \<open>A style that is ignored (claim C10)\<close>







































end
